theory Spec2Isabelle
  imports Complex_Main
begin

section \<open>JavaScript values\<close>

text \<open>
  The values that host.js handles: what \<^verbatim>\<open>require('./schedule.json')\<close> can hold (the
  JSON values), \<^verbatim>\<open>undefined\<close>, the \<^verbatim>\<open>Buffer\<close> that \<^verbatim>\<open>fs.readFileSync\<close> returns,
  and the built-in functions that a plain object inherits from \<^verbatim>\<open>Object.prototype\<close>
  (a function is represented by its \<^verbatim>\<open>name\<close>).
\<close>

datatype jsval =
    JUndefined
  | JNull
  | JBool bool
  | JNum rat
  | JStr string
  | JArr "jsval list"
  | JObj "(string \<times> jsval) list"
  | JFun string
  | JBuf string

text \<open>ToBoolean: what \<^verbatim>\<open>if (x)\<close>, \<^verbatim>\<open>!x\<close>, \<^verbatim>\<open>x || y\<close> and \<^verbatim>\<open>Boolean(x)\<close> test.\<close>

fun truthy :: "jsval \<Rightarrow> bool" where
  "truthy JUndefined = False"
| "truthy JNull = False"
| "truthy (JBool b) = b"
| "truthy (JNum n) = (n \<noteq> 0)"
| "truthy (JStr s) = (s \<noteq> [])"
| "truthy (JArr xs) = True"
| "truthy (JObj kvs) = True"
| "truthy (JFun nm) = True"
| "truthy (JBuf b) = True"

definition js_or :: "jsval \<Rightarrow> jsval \<Rightarrow> jsval" where
  "js_or a b = (if truthy a then a else b)"

text \<open>
  The properties every plain object inherits. \<^verbatim>\<open>__proto__\<close> is the prototype object
  itself, which has no own data properties.
\<close>

definition object_prototype :: "(string \<times> jsval) list" where
  "object_prototype =
    [(''constructor'', JFun ''Object''),
     (''toString'', JFun ''toString''),
     (''toLocaleString'', JFun ''toLocaleString''),
     (''valueOf'', JFun ''valueOf''),
     (''hasOwnProperty'', JFun ''hasOwnProperty''),
     (''isPrototypeOf'', JFun ''isPrototypeOf''),
     (''propertyIsEnumerable'', JFun ''propertyIsEnumerable''),
     (''__defineGetter__'', JFun ''__defineGetter__''),
     (''__defineSetter__'', JFun ''__defineSetter__''),
     (''__lookupGetter__'', JFun ''__lookupGetter__''),
     (''__lookupSetter__'', JFun ''__lookupSetter__''),
     (''__proto__'', JObj [])]"

text \<open>
  \<^verbatim>\<open>obj[k]\<close> on a plain object with own properties \<open>kvs\<close>: the own property if there is
  one, else the inherited one, else \<^verbatim>\<open>undefined\<close>.
\<close>

definition obj_get :: "(string \<times> jsval) list \<Rightarrow> string \<Rightarrow> jsval" where
  "obj_get kvs k =
    (case map_of kvs k of
       Some v \<Rightarrow> v
     | None \<Rightarrow> (case map_of object_prototype k of Some v \<Rightarrow> v | None \<Rightarrow> JUndefined))"

text \<open>
  \<^verbatim>\<open>data.name\<close>, \<^verbatim>\<open>data.time_label\<close>, \<^verbatim>\<open>data.description\<close>: the property reads of the
  dispatcher, for these three keys. None of them is a property of the prototypes of arrays,
  strings, numbers, booleans or buffers; a function has its \<^verbatim>\<open>name\<close>. The dispatcher
  reads them from a truthy value only, so the read on \<^verbatim>\<open>null\<close> or \<^verbatim>\<open>undefined\<close> (a
  TypeError) is never evaluated.
\<close>

fun record_field :: "jsval \<Rightarrow> string \<Rightarrow> jsval" where
  "record_field (JObj kvs) k = obj_get kvs k"
| "record_field (JFun nm) k = (if k = ''name'' then JStr nm else JUndefined)"
| "record_field v k = JUndefined"

section \<open>String operations\<close>

definition startsWith :: "string \<Rightarrow> string \<Rightarrow> bool" where
  "startsWith s p = (take (length p) s = p)"

definition endsWith :: "string \<Rightarrow> string \<Rightarrow> bool" where
  "endsWith s p = (length p \<le> length s \<and> drop (length s - length p) s = p)"

text \<open>\<^verbatim>\<open>s.substr(start, len)\<close> for \<open>start \<ge> 0\<close>; a negative length gives the empty string.\<close>

definition substr :: "string \<Rightarrow> nat \<Rightarrow> int \<Rightarrow> string" where
  "substr s start len = take (nat len) (drop start s)"

text \<open>\<^verbatim>\<open>s.slice(a, b)\<close>: negative positions count from the end, all positions are clamped.\<close>

definition slice_pos :: "string \<Rightarrow> int \<Rightarrow> nat" where
  "slice_pos s i = (if i < 0 then nat (max (int (length s) + i) 0) else min (nat i) (length s))"

definition slice :: "string \<Rightarrow> int \<Rightarrow> int \<Rightarrow> string" where
  "slice s a b = take (slice_pos s b - slice_pos s a) (drop (slice_pos s a) s)"

text \<open>\<open>p\<close> occurs in \<open>s\<close> at position \<open>k\<close>.\<close>

definition occurs_at :: "string \<Rightarrow> string \<Rightarrow> nat \<Rightarrow> bool" where
  "occurs_at s p k = (k \<le> length s \<and> take (length p) (drop k s) = p)"

text \<open>
  \<^verbatim>\<open>s.lastIndexOf(p)\<close>: the search starts at the last position where \<open>p\<close> fits and goes
  down to 0; \<open>-1\<close> when there is no match.
\<close>

fun scan_back :: "string \<Rightarrow> string \<Rightarrow> nat \<Rightarrow> int" where
  "scan_back s p 0 = (if occurs_at s p 0 then 0 else - 1)"
| "scan_back s p (Suc k) = (if occurs_at s p (Suc k) then int (Suc k) else scan_back s p k)"

definition lastIndexOf :: "string \<Rightarrow> string \<Rightarrow> int" where
  "lastIndexOf s p = (if length s < length p then - 1 else scan_back s p (length s - length p))"

text \<open>\<^verbatim>\<open>xs.indexOf(x)\<close> on an array: the first position of \<open>x\<close>, or \<open>-1\<close>.\<close>

fun indexOf :: "string list \<Rightarrow> string \<Rightarrow> int" where
  "indexOf [] x = - 1"
| "indexOf (y # ys) x =
    (if y = x then 0 else (let i = indexOf ys x in if i = - 1 then - 1 else i + 1))"

text \<open>String concatenation with a value that may be \<^verbatim>\<open>undefined\<close>.\<close>

fun js_string :: "string option \<Rightarrow> string" where
  "js_string None = ''undefined''"
| "js_string (Some s) = s"

section \<open>Startup: the module-level constants\<close>

text \<open>
  The file system as the module sees it: \<^verbatim>\<open>fs.readFileSync\<close> and \<^verbatim>\<open>fs.readdirSync\<close>
  either throw (\<open>Inl\<close>) or return.
\<close>

record filesystem =
  readFileSync :: "string \<Rightarrow> string + string"
  readdirSync :: "string \<Rightarrow> string + string list"

text \<open>
  The constants of the module, fixed after startup. \<open>schedule_sessions\<close> is
  \<^verbatim>\<open>schedule.sessions\<close> (the own properties of a parsed JSON object), \<open>days_const\<close> is
  \<^verbatim>\<open>calendar.days(schedule)\<close> and \<open>policyHeader\<close> is \<^verbatim>\<open>policy(isProd)\<close>, both computed
  by modules outside this file and taken as given.
\<close>

record config =
  isProd :: bool
  schedule_sessions :: "(string \<times> jsval) list"
  days_const :: jsval
  policyHeader :: string
  prodAmpCss :: "string option"
  sections :: "string list"

text \<open>
  The mutable variable \<^verbatim>\<open>fallbackProdAmpCss\<close>, and a count of the calls of
  \<^verbatim>\<open>less.render\<close> made so far.
\<close>

record state =
  fallbackProdAmpCss :: "string option"
  less_calls :: nat

definition readProdAmpCss :: "filesystem \<Rightarrow> string \<Rightarrow> string option" where
  "readProdAmpCss fs dirname =
    (case readFileSync fs (dirname @ ''/res/amp.css'') of
       Inr buf \<Rightarrow> Some buf
     | Inl err \<Rightarrow> None)"

definition sourcePrefix_const :: "config \<Rightarrow> string" where
  "sourcePrefix_const cfg = (if isProd cfg then ''res'' else ''src'')"

text \<open>The callback of \<^verbatim>\<open>map\<close> in the definition of \<^verbatim>\<open>sections\<close>; \<open>None\<close> is \<^verbatim>\<open>undefined\<close>.\<close>

definition section_name :: "string \<Rightarrow> string option" where
  "section_name section =
    (if endsWith section ''.html'' \<and> (case section of [] \<Rightarrow> True | c # cs \<Rightarrow> c \<noteq> CHR ''_'')
     then Some (substr section 0 (int (length section) - 5))
     else None)"

text \<open>\<^verbatim>\<open>Boolean\<close> on the results of the callback: \<^verbatim>\<open>undefined\<close> and \<^verbatim>\<open>''\<close> are falsy.\<close>

fun js_Boolean :: "string option \<Rightarrow> bool" where
  "js_Boolean None = False"
| "js_Boolean (Some s) = (s \<noteq> [])"

definition sections_of :: "string list \<Rightarrow> string list" where
  "sections_of entries = map the (filter js_Boolean (map section_name entries))"

text \<open>
  Loading the module: \<^verbatim>\<open>prodAmpCss\<close> is read in production only, the listing of the
  sections directory is not guarded, so its failure aborts the load.
\<close>

definition startup ::
  "bool \<Rightarrow> filesystem \<Rightarrow> string \<Rightarrow> (string \<times> jsval) list \<Rightarrow> jsval \<Rightarrow> string
    \<Rightarrow> string + (config \<times> state)" where
  "startup is_prod fs dirname sessions ds pol =
    (let css = (if is_prod then readProdAmpCss fs dirname else None) in
     case readdirSync fs (dirname @ ''/sections'') of
       Inl err \<Rightarrow> Inl err
     | Inr entries \<Rightarrow>
         Inr (\<lparr>isProd = is_prod, schedule_sessions = sessions, days_const = ds,
               policyHeader = pol, prodAmpCss = css, sections = sections_of entries\<rparr>,
              \<lparr>fallbackProdAmpCss = None, less_calls = 0\<rparr>))"

section \<open>The request handler\<close>

text \<open>What the handler reads of the Koa context.\<close>

record ctx =
  url :: string
  originalUrl :: "string option"
  host :: "string option"

definition mountUrl :: "ctx \<Rightarrow> string" where
  "mountUrl c =
    (case originalUrl c of
       None \<Rightarrow> ''''
     | Some orig \<Rightarrow>
         (let index = lastIndexOf orig (url c) in
          if index = - 1 then '''' else slice orig 0 index))"

text \<open>
  The object passed to the template. The fields of the AMP branch are absent (\<open>None\<close>)
  on a plain section page.
\<close>

record scope =
  year :: nat
  prod_flag :: bool
  base :: string
  layout :: string
  ua :: string
  conversion :: nat
  sourcePrefix :: string
  days :: jsval
  sitePrefix :: "string option"
  title :: "jsval option"
  time_label :: "jsval option"
  description :: "jsval option"
  payload :: "jsval option"
  styles :: "jsval option"

text \<open>
  How a request leaves the handler: \<^verbatim>\<open>return next()\<close>, or \<^verbatim>\<open>ctx.render(path, scope)\<close>
  after the response headers were set, or the rejection of \<^verbatim>\<open>less.render\<close>, which the
  handler does not catch.
\<close>

datatype outcome =
    Deferred
  | Rendered "(string \<times> string) list" string scope
  | Failed string

text \<open>
  Lines 148 to 159: the stylesheet of the AMP page. \<open>less_out\<close> is what \<^verbatim>\<open>less.render\<close>
  gives if it is called during this request: \<open>Inl\<close> a rejection, \<open>Inr\<close> the text of
  \<^verbatim>\<open>result.css\<close>.
\<close>

definition amp_css :: "config \<Rightarrow> string + string \<Rightarrow> state \<Rightarrow> (string + jsval) \<times> state" where
  "amp_css cfg less_out st =
    (let css = js_or (case prodAmpCss cfg of None \<Rightarrow> JUndefined | Some buf \<Rightarrow> JBuf buf)
                     (case fallbackProdAmpCss st of None \<Rightarrow> JUndefined | Some s \<Rightarrow> JStr s)
     in if css = JUndefined then
          (let st1 = st\<lparr>less_calls := Suc (less_calls st)\<rparr> in
           case less_out of
             Inl err \<Rightarrow> (Inl err, st1)
           | Inr css_text \<Rightarrow>
               (Inr (JStr css_text),
                if isProd cfg then st1\<lparr>fallbackProdAmpCss := Some css_text\<rparr> else st1))
        else (Inr css, st))"

text \<open>
  The callback given to the flat router, which calls it with the first path segment
  \<open>path\<close> and the remainder \<open>rest\<close> (\<open>None\<close> is \<^verbatim>\<open>undefined\<close>). The test
  \<^verbatim>\<open>if (rest)\<close> fails for \<^verbatim>\<open>undefined\<close> and for the empty string; in both cases
  control reaches the render of the section at the end of the function.
\<close>

definition handler ::
  "config \<Rightarrow> string + string \<Rightarrow> state \<Rightarrow> ctx \<Rightarrow> string \<Rightarrow> string option \<Rightarrow> outcome \<times> state" where
  "handler cfg less_out st c path rest =
    (if indexOf (sections cfg) path = - 1 then (Deferred, st)
     else
       let basepath = mountUrl c;
           hostname = host c;
           site = (if isProd cfg then ''https://'' else ''http://'') @ js_string hostname @ basepath;
           sc = \<lparr>year = 2018, prod_flag = isProd cfg, base = basepath, layout = ''devsummit'',
                 ua = ''UA-41980257-1'', conversion = 935743779,
                 sourcePrefix = sourcePrefix_const cfg, days = days_const cfg,
                 sitePrefix = None, title = None, time_label = None, description = None,
                 payload = None, styles = None\<rparr>;
           hdrs = [(''Feature-Policy'', policyHeader cfg)]
       in
         case rest of
           None \<Rightarrow> (Rendered hdrs path sc, st)
         | Some r \<Rightarrow>
             if r = '''' then (Rendered hdrs path sc, st)
             else if path \<noteq> ''schedule'' then (Deferred, st)
             else
               let data = obj_get (schedule_sessions cfg) r
               in
                 if \<not> truthy data \<or> startsWith r ''_'' then (Deferred, st)
                 else
                   (case amp_css cfg less_out st of
                      (Inl err, st') \<Rightarrow> (Failed err, st')
                    | (Inr css, st') \<Rightarrow>
                        (Rendered hdrs ''_amp-session''
                           (sc\<lparr>layout := ''amp'',
                               sitePrefix := Some site,
                               title := Some (js_or (record_field data ''name'') (JStr '''')),
                               time_label := Some (js_or (record_field data ''time_label'') (JStr '''')),
                               description := Some (js_or (record_field data ''description'') (JStr '''')),
                               payload := Some data,
                               styles := Some css\<rparr>),
                         st')))"

text \<open>A request as the server sees it, with what \<^verbatim>\<open>less.render\<close> would give at that time.\<close>

record request =
  req_ctx :: ctx
  req_path :: string
  req_rest :: "string option"
  req_less :: "string + string"

text \<open>A request run from its start to its end with no other request in between.\<close>

definition serve :: "config \<Rightarrow> state \<Rightarrow> request \<Rightarrow> outcome \<times> state" where
  "serve cfg st rq = handler cfg (req_less rq) st (req_ctx rq) (req_path rq) (req_rest rq)"

text \<open>
  The requests that reach the AMP branch (line 148): the section \<^verbatim>\<open>schedule\<close> is
  registered, the sub-path is not empty and does not start with an underscore, and the value
  read from the sessions object under it is truthy.
\<close>

definition amp_request :: "config \<Rightarrow> request \<Rightarrow> bool" where
  "amp_request cfg rq =
    (req_path rq = ''schedule'' \<and> ''schedule'' \<in> set (sections cfg) \<and>
     (case req_rest rq of
        None \<Rightarrow> False
      | Some r \<Rightarrow> r \<noteq> '''' \<and> truthy (obj_get (schedule_sessions cfg) r) \<and> \<not> startsWith r ''_''))"

text \<open>The stylesheet handed to the template, if the request was rendered with one.\<close>

fun outcome_styles :: "outcome \<Rightarrow> jsval option" where
  "outcome_styles (Rendered hdrs p sc) = styles sc"
| "outcome_styles Deferred = None"
| "outcome_styles (Failed err) = None"

text \<open>Lines 161 to 168: the fields that the AMP branch adds to the scope.\<close>

definition amp_scope :: "scope \<Rightarrow> string \<Rightarrow> jsval \<Rightarrow> jsval \<Rightarrow> scope" where
  "amp_scope sc site data css =
     sc\<lparr>layout := ''amp'',
        sitePrefix := Some site,
        title := Some (js_or (record_field data ''name'') (JStr '''')),
        time_label := Some (js_or (record_field data ''time_label'') (JStr '''')),
        description := Some (js_or (record_field data ''description'') (JStr '''')),
        payload := Some data,
        styles := Some css\<rparr>"

text \<open>
  The handler is an async function: at \<^verbatim>\<open>await less.render\<close> (line 152) it is suspended,
  and other requests run before it is resumed. What a suspended request keeps is its local
  variables \<^verbatim>\<open>scope\<close>, \<^verbatim>\<open>sitePrefix\<close> and \<^verbatim>\<open>data\<close>.
\<close>

record suspended =
  susp_scope :: scope
  susp_site :: string
  susp_data :: jsval

text \<open>
  The handler from its start to the first point where it leaves or is suspended: it ends
  with \<^verbatim>\<open>next()\<close> or a render (\<open>Inl\<close>), or it has read both stylesheet variables
  (line 148), found none, called \<^verbatim>\<open>less.render\<close> and waits for it (\<open>Inr\<close>).
\<close>

definition handler_start ::
  "config \<Rightarrow> state \<Rightarrow> ctx \<Rightarrow> string \<Rightarrow> string option \<Rightarrow> (outcome + suspended) \<times> state" where
  "handler_start cfg st c path rest =
    (if indexOf (sections cfg) path = - 1 then (Inl Deferred, st)
     else
       let basepath = mountUrl c;
           hostname = host c;
           site = (if isProd cfg then ''https://'' else ''http://'') @ js_string hostname @ basepath;
           sc = \<lparr>year = 2018, prod_flag = isProd cfg, base = basepath, layout = ''devsummit'',
                 ua = ''UA-41980257-1'', conversion = 935743779,
                 sourcePrefix = sourcePrefix_const cfg, days = days_const cfg,
                 sitePrefix = None, title = None, time_label = None, description = None,
                 payload = None, styles = None\<rparr>;
           hdrs = [(''Feature-Policy'', policyHeader cfg)]
       in
         case rest of
           None \<Rightarrow> (Inl (Rendered hdrs path sc), st)
         | Some r \<Rightarrow>
             if r = '''' then (Inl (Rendered hdrs path sc), st)
             else if path \<noteq> ''schedule'' then (Inl Deferred, st)
             else
               let data = obj_get (schedule_sessions cfg) r
               in
                 if \<not> truthy data \<or> startsWith r ''_'' then (Inl Deferred, st)
                 else
                   let css = js_or (case prodAmpCss cfg of None \<Rightarrow> JUndefined | Some buf \<Rightarrow> JBuf buf)
                                   (case fallbackProdAmpCss st of None \<Rightarrow> JUndefined | Some s \<Rightarrow> JStr s)
                   in if css = JUndefined then
                        (Inr \<lparr>susp_scope = sc, susp_site = site, susp_data = data\<rparr>,
                         st\<lparr>less_calls := Suc (less_calls st)\<rparr>)
                      else (Inl (Rendered hdrs ''_amp-session'' (amp_scope sc site data css)), st))"

text \<open>
  The handler from the point where \<^verbatim>\<open>less.render\<close> has settled (lines 153 to 173), run in
  the state of that moment: a rejection leaves the handler, a text is stored in production
  and the page is rendered with it.
\<close>

definition handler_resume ::
  "config \<Rightarrow> string + string \<Rightarrow> state \<Rightarrow> suspended \<Rightarrow> outcome \<times> state" where
  "handler_resume cfg less_out st susp =
    (case less_out of
       Inl err \<Rightarrow> (Failed err, st)
     | Inr css_text \<Rightarrow>
         (Rendered [(''Feature-Policy'', policyHeader cfg)] ''_amp-session''
            (amp_scope (susp_scope susp) (susp_site susp) (susp_data susp) (JStr css_text)),
          if isProd cfg then st\<lparr>fallbackProdAmpCss := Some css_text\<rparr> else st))"

text \<open>
  The server between two events: the module variables and the suspended requests, each
  with what its call of \<^verbatim>\<open>less.render\<close> is going to settle with.
\<close>

record server =
  cells :: state
  pending :: "(suspended \<times> (string + string)) list"

text \<open>
  An event is the arrival of a request, which runs until it ends or is suspended, or the
  settlement of the call of the suspended request at a position, which runs that request
  to its end. Events are not interrupted: the process has one thread.
\<close>

datatype event = Arrive request | Settle nat

fun step :: "config \<Rightarrow> server \<Rightarrow> event \<Rightarrow> outcome option \<times> server" where
  "step cfg sv (Arrive rq) =
    (case handler_start cfg (cells sv) (req_ctx rq) (req_path rq) (req_rest rq) of
       (Inl out, st') \<Rightarrow> (Some out, sv\<lparr>cells := st'\<rparr>)
     | (Inr susp, st') \<Rightarrow>
         (None, sv\<lparr>cells := st', pending := pending sv @ [(susp, req_less rq)]\<rparr>))"
| "step cfg sv (Settle i) =
    (if i < length (pending sv) then
       (case handler_resume cfg (snd (pending sv ! i)) (cells sv) (fst (pending sv ! i)) of
          (out, st') \<Rightarrow>
            (Some out, sv\<lparr>cells := st', pending := take i (pending sv) @ drop (Suc i) (pending sv)\<rparr>))
     else (None, sv))"

fun run :: "config \<Rightarrow> server \<Rightarrow> event list \<Rightarrow> outcome option list \<times> server" where
  "run cfg sv [] = ([], sv)"
| "run cfg sv (e # es) =
    (case step cfg sv e of
       (out, sv1) \<Rightarrow> (case run cfg sv1 es of (outs, sv2) \<Rightarrow> (out # outs, sv2)))"

text \<open>The arrivals of requests that reach the AMP branch.\<close>

fun amp_arrival :: "config \<Rightarrow> event \<Rightarrow> bool" where
  "amp_arrival cfg (Arrive rq) = amp_request cfg rq"
| "amp_arrival cfg (Settle i) = False"

text \<open>The stylesheet of the page rendered by an event, if it rendered one.\<close>

fun event_styles :: "outcome option \<Rightarrow> jsval option" where
  "event_styles None = None"
| "event_styles (Some out) = outcome_styles out"

section \<open>The mount path\<close>

lemma occurs_at_bound: "occurs_at s p k \<Longrightarrow> k + length p \<le> length s"
proof -
  assume h: "occurs_at s p k"
  have "length (take (length p) (drop k s)) = length p" and "k \<le> length s"
    using h by (simp_all add: occurs_at_def)
  then show ?thesis by simp
qed

lemma occurs_at_append: "occurs_at s p k \<longleftrightarrow> (\<exists>pre post. s = pre @ p @ post \<and> length pre = k)"
proof
  assume h: "occurs_at s p k"
  have "s = take k s @ take (length p) (drop k s) @ drop (length p) (drop k s)"
    by (metis append_take_drop_id)
  moreover have "length (take k s) = k" using occurs_at_bound [OF h] by simp
  ultimately show "\<exists>pre post. s = pre @ p @ post \<and> length pre = k"
    using h unfolding occurs_at_def by metis
next
  assume "\<exists>pre post. s = pre @ p @ post \<and> length pre = k"
  then show "occurs_at s p k" by (auto simp: occurs_at_def)
qed

lemma scan_back_none: "(scan_back s p n = - 1) \<longleftrightarrow> (\<forall>k\<le>n. \<not> occurs_at s p k)"
  by (induction n) (auto simp: le_Suc_eq)

lemma scan_back_last:
  "occurs_at s p i \<Longrightarrow> i \<le> n \<Longrightarrow> (\<forall>j\<le>n. occurs_at s p j \<longrightarrow> j \<le> i) \<Longrightarrow> scan_back s p n = int i"
proof (induction n)
  case 0
  then show ?case by simp
next
  case (Suc n)
  show ?case
  proof (cases "occurs_at s p (Suc n)")
    case True
    with Suc.prems have "i = Suc n" by (simp add: le_antisym)
    with True show ?thesis by simp
  next
    case False
    with Suc.prems have "i \<le> n" by (metis le_Suc_eq)
    with Suc False show ?thesis by simp
  qed
qed

lemma lastIndexOf_none: "(lastIndexOf s p = - 1) \<longleftrightarrow> (\<forall>k. \<not> occurs_at s p k)"
proof (cases "length s < length p")
  case True
  then show ?thesis using occurs_at_bound [of s p] by (fastforce simp: lastIndexOf_def)
next
  case False
  have "(\<forall>k\<le>length s - length p. \<not> occurs_at s p k) \<longleftrightarrow> (\<forall>k. \<not> occurs_at s p k)"
    using occurs_at_bound [of s p] by (metis Nat.le_diff_conv2 False not_less add.commute)
  with False show ?thesis by (simp add: lastIndexOf_def scan_back_none)
qed

lemma lastIndexOf_last:
  assumes "occurs_at s p i" and "\<forall>j. occurs_at s p j \<longrightarrow> j \<le> i"
  shows "lastIndexOf s p = int i"
proof -
  have b: "i + length p \<le> length s" using assms(1) by (rule occurs_at_bound)
  then have "scan_back s p (length s - length p) = int i"
    using assms by (intro scan_back_last) auto
  with b show ?thesis by (simp add: lastIndexOf_def)
qed

lemma slice_prefix: "slice s 0 (int i) = take i s"
  by (simp add: slice_def slice_pos_def min_def)

lemma occurs_at_self: "occurs_at s s k \<longleftrightarrow> k = 0"
  using occurs_at_bound [of s s k] by (auto simp: occurs_at_def)

text \<open>
  Claim C3. The mount path is the empty string when the original URL is undefined; when the
  current URL does not occur in the original URL it is the empty string; otherwise it is the
  part of the original URL before the last occurrence of the current URL. For the original
  URL \<^verbatim>\<open>/app/schedule/abc\<close> and the current URL \<^verbatim>\<open>/schedule/abc\<close> it is \<^verbatim>\<open>/app\<close>, and
  it is empty when the two are equal.
\<close>

theorem mountUrl_last_occurrence:
  "(originalUrl c = None \<longrightarrow> mountUrl c = '''') \<and>
   (originalUrl c = Some orig \<and> (\<forall>k. \<not> occurs_at orig (url c) k) \<longrightarrow> mountUrl c = '''') \<and>
   (originalUrl c = Some orig \<and> occurs_at orig (url c) i \<and> (\<forall>j. occurs_at orig (url c) j \<longrightarrow> j \<le> i)
      \<longrightarrow> mountUrl c = take i orig) \<and>
   (originalUrl c = Some ''/app/schedule/abc'' \<and> url c = ''/schedule/abc'' \<longrightarrow> mountUrl c = ''/app'') \<and>
   (originalUrl c = Some (url c) \<longrightarrow> mountUrl c = '''')"
proof (intro conjI impI)
  assume "originalUrl c = None"
  then show "mountUrl c = ''''" by (simp add: mountUrl_def)
next
  assume "originalUrl c = Some orig \<and> (\<forall>k. \<not> occurs_at orig (url c) k)"
  then show "mountUrl c = ''''" by (simp add: mountUrl_def lastIndexOf_none)
next
  assume h: "originalUrl c = Some orig \<and> occurs_at orig (url c) i \<and> (\<forall>j. occurs_at orig (url c) j \<longrightarrow> j \<le> i)"
  then have "lastIndexOf orig (url c) = int i" by (simp add: lastIndexOf_last)
  with h show "mountUrl c = take i orig" by (simp add: mountUrl_def slice_prefix)
next
  assume h: "originalUrl c = Some ''/app/schedule/abc'' \<and> url c = ''/schedule/abc''"
  have "lastIndexOf ''/app/schedule/abc'' ''/schedule/abc'' = 4"
    by (simp add: lastIndexOf_def occurs_at_def eval_nat_numeral)
  with h show "mountUrl c = ''/app''" by (simp add: mountUrl_def slice_def slice_pos_def)
next
  assume h: "originalUrl c = Some (url c)"
  have "lastIndexOf (url c) (url c) = int 0"
    by (rule lastIndexOf_last) (simp_all add: occurs_at_self)
  with h show "mountUrl c = ''''" by (simp add: mountUrl_def slice_def slice_pos_def)
qed


theorem mountUrl_last_occurrence_witness:
  "mountUrl \<lparr>url = ''/b'', originalUrl = None, host = None\<rparr> = '''' \<and>
   mountUrl \<lparr>url = ''/x'', originalUrl = Some ''/a/b'', host = None\<rparr> = '''' \<and>
   mountUrl \<lparr>url = ''/b'', originalUrl = Some ''/a/b/b'', host = None\<rparr> = ''/a/b'' \<and>
   mountUrl \<lparr>url = ''/schedule/abc'', originalUrl = Some ''/app/schedule/abc'', host = None\<rparr> = ''/app'' \<and>
   mountUrl \<lparr>url = ''/schedule'', originalUrl = Some ''/schedule'', host = None\<rparr> = ''''"
proof -
  have no: "\<forall>k. \<not> occurs_at ''/a/b'' ''/x'' k"
  proof (intro allI notI)
    fix k assume h: "occurs_at ''/a/b'' ''/x'' k"
    then have "k \<le> 2" using occurs_at_bound [OF h] by simp
    then have "k = 0 \<or> k = 1 \<or> k = 2" by arith
    with h show False by (auto simp: occurs_at_def)
  qed
  have at: "occurs_at ''/a/b/b'' ''/b'' 4"
    by (simp add: occurs_at_def)
  have last: "\<forall>j. occurs_at ''/a/b/b'' ''/b'' j \<longrightarrow> j \<le> 4"
    using occurs_at_bound [of "''/a/b/b''" "''/b''"] by fastforce
  show ?thesis
    using no at last
      mountUrl_last_occurrence [of "\<lparr>url = ''/b'', originalUrl = None, host = None\<rparr>"]
      mountUrl_last_occurrence [of "\<lparr>url = ''/x'', originalUrl = Some ''/a/b'', host = None\<rparr>" "''/a/b''"]
      mountUrl_last_occurrence [of "\<lparr>url = ''/b'', originalUrl = Some ''/a/b/b'', host = None\<rparr>" "''/a/b/b''" 4]
      mountUrl_last_occurrence [of "\<lparr>url = ''/schedule/abc'', originalUrl = Some ''/app/schedule/abc'', host = None\<rparr>"]
      mountUrl_last_occurrence [of "\<lparr>url = ''/schedule'', originalUrl = Some ''/schedule'', host = None\<rparr>"]
    by simp
qed

section \<open>The section registry\<close>

lemma endsWith_append: "endsWith e p \<longleftrightarrow> (\<exists>s. e = s @ p)"
proof
  assume h: "endsWith e p"
  then have "e = take (length e - length p) e @ p"
    by (metis append_take_drop_id endsWith_def)
  then show "\<exists>s. e = s @ p" ..
next
  assume "\<exists>s. e = s @ p"
  then show "endsWith e p" by (auto simp: endsWith_def)
qed

lemma substr_strip: "substr (s @ ''.html'') 0 (int (length (s @ ''.html'')) - 5) = s"
proof -
  have "nat (int (length (s @ ''.html'')) - 5) = length s" by simp
  then show ?thesis unfolding substr_def by simp
qed

lemma first_char_append:
  "(case s @ ''.html'' of [] \<Rightarrow> True | c # cs \<Rightarrow> c \<noteq> CHR ''_'') \<longleftrightarrow> \<not> startsWith s ''_''"
  by (cases s) (simp_all add: startsWith_def)

lemma section_name_append:
  "section_name (s @ ''.html'') = (if startsWith s ''_'' then None else Some s)"
  unfolding section_name_def substr_strip first_char_append
  by (simp add: endsWith_append)

lemma section_name_Some:
  "section_name e = Some s \<longleftrightarrow> (e = s @ ''.html'' \<and> \<not> startsWith s ''_'')"
proof
  assume h: "section_name e = Some s"
  then have "endsWith e ''.html''" by (simp add: section_name_def split: if_splits)
  then obtain t where t: "e = t @ ''.html''" using endsWith_append by blast
  with h show "e = s @ ''.html'' \<and> \<not> startsWith s ''_''"
    by (simp add: section_name_append split: if_splits)
next
  assume "e = s @ ''.html'' \<and> \<not> startsWith s ''_''"
  then show "section_name e = Some s" by (simp add: section_name_append)
qed

lemma sections_of_Nil: "sections_of [] = []"
  by (simp add: sections_of_def)

lemma sections_of_Cons:
  "sections_of (e # es) =
     (case section_name e of
        None \<Rightarrow> sections_of es
      | Some s \<Rightarrow> if s = [] then sections_of es else s # sections_of es)"
  by (simp add: sections_of_def split: option.splits)

lemma in_sections_of:
  "s \<in> set (sections_of entries) \<longleftrightarrow> (s \<noteq> [] \<and> (\<exists>e\<in>set entries. section_name e = Some s))"
  by (induction entries) (auto simp: sections_of_Nil sections_of_Cons split: option.splits)

lemma set_sections_of:
  "set (sections_of entries) = {s. s \<noteq> [] \<and> \<not> startsWith s ''_'' \<and> s @ ''.html'' \<in> set entries}"
  by (auto simp: in_sections_of section_name_Some)

text \<open>The registry keeps the order of the directory listing.\<close>

lemma sections_of_order:
  "sections_of entries =
     map (\<lambda>e. take (length e - 5) e)
       (filter (\<lambda>e. endsWith e ''.html'' \<and> e \<noteq> ''.html'' \<and> \<not> startsWith e ''_'') entries)"
proof (induction entries)
  case Nil
  show ?case by (simp add: sections_of_Nil)
next
  case (Cons e es)
  show ?case
  proof (cases "endsWith e ''.html''")
    case False
    with Cons show ?thesis by (simp add: sections_of_Cons section_name_def)
  next
    case True
    then obtain s where s: "e = s @ ''.html''" using endsWith_append by blast
    have "startsWith e ''_'' \<longleftrightarrow> startsWith s ''_''"
      unfolding s by (cases s) (simp_all add: startsWith_def)
    with Cons True s show ?thesis
      by (auto simp add: sections_of_Cons section_name_append)
  qed
qed

text \<open>
  Claim C6, as stated, fails: the entry \<^verbatim>\<open>.html\<close> ends in the extension and does not
  start with an underscore, its stripped name is the empty string, and
  \<^verbatim>\<open>filter(Boolean)\<close> drops the empty string with the \<^verbatim>\<open>undefined\<close> results.
\<close>

theorem sections_registry_counterexample:
  "endsWith ''.html'' ''.html'' \<and> hd ''.html'' \<noteq> CHR ''_''
   \<and> substr ''.html'' 0 (int (length ''.html'') - 5) = ''''
   \<and> '''' \<notin> set (sections_of [''.html''])"
  by (simp add: endsWith_def substr_def sections_of_Cons sections_of_Nil section_name_def)

text \<open>
  Claim C6, amended. The registry holds exactly the non-empty names \<open>s\<close> that do not start
  with an underscore and for which \<open>s\<close> followed by \<^verbatim>\<open>.html\<close> is a directory entry; every
  other entry is dropped, and no name that starts with an underscore is ever registered.
\<close>

theorem sections_registry:
  "set (sections_of entries) = {s. s \<noteq> [] \<and> \<not> startsWith s ''_'' \<and> s @ ''.html'' \<in> set entries}
   \<and> (\<forall>s. startsWith s ''_'' \<longrightarrow> s \<notin> set (sections_of entries))"
  by (simp add: set_sections_of)

theorem sections_registry_witness:
  "set (sections_of [''index.html'', ''_amp-session.html'', ''.html'', ''schedule.html'', ''README.md''])
     = {''index'', ''schedule''}
   \<and> ''_amp-session'' \<notin> set (sections_of [''index.html'', ''_amp-session.html'', ''.html'', ''schedule.html'', ''README.md''])"
proof -
  let ?es = "[''index.html'', ''_amp-session.html'', ''.html'', ''schedule.html'', ''README.md'']"
  have "startsWith ''_amp-session'' ''_''" by (simp add: startsWith_def)
  then have "''_amp-session'' \<notin> set (sections_of ?es)"
    using sections_registry [of ?es] by blast
  moreover have "set (sections_of ?es) = {''index'', ''schedule''}"
    by (simp add: sections_of_Cons sections_of_Nil section_name_def endsWith_def substr_def)
  ultimately show ?thesis by simp
qed

section \<open>The dispatcher: deferred and plain requests\<close>

lemma indexOf_ge: "- 1 \<le> indexOf xs x"
  by (induction xs) (auto simp: Let_def)

lemma indexOf_none: "(indexOf xs x = - 1) \<longleftrightarrow> x \<notin> set xs"
proof (induction xs)
  case Nil
  show ?case by simp
next
  case (Cons y ys)
  have "indexOf ys x + 1 \<noteq> - 1" using indexOf_ge [of ys x] by arith
  with Cons show ?case by (auto simp: Let_def)
qed

lemma startsWith_underscore: "startsWith s ''_'' \<longleftrightarrow> (\<exists>t. s = CHR ''_'' # t)"
  by (cases s) (auto simp: startsWith_def)

text \<open>
  Claim C5. For every registered section name \<open>path\<close>, a request for it with no sub-path
  (\<open>rest\<close> undefined or empty) is rendered with the template \<open>path\<close> and a scope whose
  layout is \<^verbatim>\<open>devsummit\<close>; the state is unchanged. The section \<^verbatim>\<open>schedule\<close> is one
  instance.
\<close>

theorem section_without_subpath_renders:
  assumes "path \<in> set (sections cfg)" and "rest = None \<or> rest = Some ''''"
  shows "handler cfg less_out st c path rest
          = (Rendered [(''Feature-Policy'', policyHeader cfg)] path
               \<lparr>year = 2018, prod_flag = isProd cfg, base = mountUrl c, layout = ''devsummit'',
                ua = ''UA-41980257-1'', conversion = 935743779,
                sourcePrefix = sourcePrefix_const cfg, days = days_const cfg,
                sitePrefix = None, title = None, time_label = None, description = None,
                payload = None, styles = None\<rparr>,
             st)"
  using assms by (auto simp: handler_def Let_def indexOf_none)

theorem section_without_subpath_renders_witness:
  "handler \<lparr>isProd = True, schedule_sessions = [], days_const = JNull, policyHeader = ''p'',
            prodAmpCss = None, sections = [''index'', ''schedule'']\<rparr>
     (Inl ''e'') \<lparr>fallbackProdAmpCss = None, less_calls = 0\<rparr>
     \<lparr>url = ''/schedule'', originalUrl = Some ''/schedule'', host = Some ''h''\<rparr> ''schedule'' None
   = (Rendered [(''Feature-Policy'', ''p'')] ''schedule''
        \<lparr>year = 2018, prod_flag = True, base = '''', layout = ''devsummit'',
         ua = ''UA-41980257-1'', conversion = 935743779,
         sourcePrefix = ''res'', days = JNull,
         sitePrefix = None, title = None, time_label = None, description = None,
         payload = None, styles = None\<rparr>,
      \<lparr>fallbackProdAmpCss = None, less_calls = 0\<rparr>)"
proof -
  have m: "mountUrl \<lparr>url = ''/schedule'', originalUrl = Some ''/schedule'', host = Some ''h''\<rparr> = ''''"
    by (simp add: mountUrl_def lastIndexOf_def occurs_at_def slice_def slice_pos_def)
  show ?thesis
    using section_without_subpath_renders [of "''schedule''"
        "\<lparr>isProd = True, schedule_sessions = [], days_const = JNull, policyHeader = ''p'',
          prodAmpCss = None, sections = [''index'', ''schedule'']\<rparr>" None
        "Inl ''e''" "\<lparr>fallbackProdAmpCss = None, less_calls = 0\<rparr>"
        "\<lparr>url = ''/schedule'', originalUrl = Some ''/schedule'', host = Some ''h''\<rparr>"]
    by (simp add: m sourcePrefix_const_def)
qed

text \<open>
  Claim C7. A request with a non-empty sub-path whose section is not \<^verbatim>\<open>schedule\<close> is
  deferred to the next handler: nothing is rendered and the state is unchanged. This holds
  whether or not the section is registered.
\<close>

theorem subpath_of_other_section_defers:
  assumes "path \<noteq> ''schedule''" and "rest = Some r" and "r \<noteq> ''''"
  shows "handler cfg less_out st c path rest = (Deferred, st)"
  using assms by (simp add: handler_def Let_def)

theorem subpath_of_other_section_defers_witness:
  "handler \<lparr>isProd = False, schedule_sessions = [(''abc'', JObj [])], days_const = JNull,
            policyHeader = ''p'', prodAmpCss = None, sections = [''index'', ''schedule'']\<rparr>
     (Inr ''css'') \<lparr>fallbackProdAmpCss = None, less_calls = 0\<rparr>
     \<lparr>url = ''/index/abc'', originalUrl = Some ''/index/abc'', host = Some ''h''\<rparr>
     ''index'' (Some ''abc'')
   = (Deferred, \<lparr>fallbackProdAmpCss = None, less_calls = 0\<rparr>)"
  using subpath_of_other_section_defers [of "''index''" "Some ''abc''" "''abc''"
      "\<lparr>isProd = False, schedule_sessions = [(''abc'', JObj [])], days_const = JNull,
        policyHeader = ''p'', prodAmpCss = None, sections = [''index'', ''schedule'']\<rparr>"
      "Inr ''css''" "\<lparr>fallbackProdAmpCss = None, less_calls = 0\<rparr>"
      "\<lparr>url = ''/index/abc'', originalUrl = Some ''/index/abc'', host = Some ''h''\<rparr>"]
  by simp

text \<open>
  Claim C10. When the sub-path \<open>r\<close> of a request is a key of the sessions object and the
  value stored under it is falsy (\<^verbatim>\<open>null\<close>, \<^verbatim>\<open>0\<close>, the empty string, \<^verbatim>\<open>false\<close>), the
  request is deferred and the state is unchanged, exactly as for a sub-path that is no key
  of the sessions and names nothing inherited, whose lookup yields \<^verbatim>\<open>undefined\<close>: the
  test is on the truthiness of the value read, not on the presence of the key.
\<close>

theorem falsy_record_defers:
  assumes "map_of (schedule_sessions cfg) r = Some v" and "\<not> truthy v" and "r \<noteq> ''''"
  shows "handler cfg less_out st c path (Some r) = (Deferred, st)
       \<and> (\<forall>r'. r' \<noteq> '''' \<and> map_of (schedule_sessions cfg) r' = None
                  \<and> map_of object_prototype r' = None
              \<longrightarrow> handler cfg less_out st c path (Some r')
                    = handler cfg less_out st c path (Some r))"
proof -
  have d: "handler cfg less_out st c path (Some r) = (Deferred, st)"
    using assms by (simp add: handler_def Let_def obj_get_def)
  have "handler cfg less_out st c path (Some r') = (Deferred, st)"
    if "r' \<noteq> '''' \<and> map_of (schedule_sessions cfg) r' = None \<and> map_of object_prototype r' = None"
    for r'
    using that by (simp add: handler_def Let_def obj_get_def)
  with d show ?thesis by simp
qed

theorem falsy_record_defers_witness:
  "handler \<lparr>isProd = True, schedule_sessions = [(''abc'', JNull), (''n'', JNum 0), (''s'', JStr '''')],
            days_const = JNull, policyHeader = ''p'', prodAmpCss = Some ''b'',
            sections = [''schedule'']\<rparr>
     (Inr ''css'') \<lparr>fallbackProdAmpCss = None, less_calls = 0\<rparr>
     \<lparr>url = ''/schedule/abc'', originalUrl = Some ''/schedule/abc'', host = Some ''h''\<rparr>
     ''schedule'' (Some ''abc'')
   = (Deferred, \<lparr>fallbackProdAmpCss = None, less_calls = 0\<rparr>)"
  using falsy_record_defers [of
      "\<lparr>isProd = True, schedule_sessions = [(''abc'', JNull), (''n'', JNum 0), (''s'', JStr '''')],
        days_const = JNull, policyHeader = ''p'', prodAmpCss = Some ''b'',
        sections = [''schedule'']\<rparr>" "''abc''" JNull
      "Inr ''css''" "\<lparr>fallbackProdAmpCss = None, less_calls = 0\<rparr>"
      "\<lparr>url = ''/schedule/abc'', originalUrl = Some ''/schedule/abc'', host = Some ''h''\<rparr>"
      "''schedule''"]
  by simp

section \<open>The dispatcher: session pages\<close>

lemma handler_amp:
  assumes "''schedule'' \<in> set (sections cfg)" and "r \<noteq> ''''"
    and "truthy (obj_get (schedule_sessions cfg) r)" and "\<not> startsWith r ''_''"
  shows "handler cfg less_out st c ''schedule'' (Some r) =
    (case amp_css cfg less_out st of
       (Inl err, st') \<Rightarrow> (Failed err, st')
     | (Inr css, st') \<Rightarrow>
         (Rendered [(''Feature-Policy'', policyHeader cfg)] ''_amp-session''
            \<lparr>year = 2018, prod_flag = isProd cfg, base = mountUrl c, layout = ''amp'',
             ua = ''UA-41980257-1'', conversion = 935743779,
             sourcePrefix = sourcePrefix_const cfg, days = days_const cfg,
             sitePrefix = Some ((if isProd cfg then ''https://'' else ''http://'')
                                 @ js_string (host c) @ mountUrl c),
             title = Some (js_or (record_field (obj_get (schedule_sessions cfg) r) ''name'') (JStr '''')),
             time_label = Some (js_or (record_field (obj_get (schedule_sessions cfg) r) ''time_label'') (JStr '''')),
             description = Some (js_or (record_field (obj_get (schedule_sessions cfg) r) ''description'') (JStr '''')),
             payload = Some (obj_get (schedule_sessions cfg) r),
             styles = Some css\<rparr>,
          st'))"
  using assms by (simp add: handler_def Let_def indexOf_none split: prod.splits sum.splits)

text \<open>What the guard of line 144 does give: a falsy value read, or a leading underscore, defers.\<close>

lemma handler_defers_guard:
  assumes "\<not> truthy (obj_get (schedule_sessions cfg) r) \<or> startsWith r ''_''" and "r \<noteq> ''''"
  shows "handler cfg less_out st c path (Some r) = (Deferred, st)"
  using assms by (auto simp: handler_def Let_def)

lemma amp_css_available:
  assumes "prodAmpCss cfg \<noteq> None \<or> fallbackProdAmpCss st \<noteq> None \<or> \<not> isl less_out"
  shows "\<exists>css st'. amp_css cfg less_out st = (Inr css, st')"
  using assms by (cases less_out) (auto simp: amp_css_def js_or_def Let_def split: option.splits)

lemma proto_fields:
  "map_of object_prototype ''name'' = None"
  "map_of object_prototype ''time_label'' = None"
  "map_of object_prototype ''description'' = None"
  by (simp_all add: object_prototype_def)

lemma obj_get_field:
  assumes "map_of object_prototype k = None"
  shows "js_or (obj_get kvs k) (JStr []) =
          (case map_of kvs k of None \<Rightarrow> JStr [] | Some v \<Rightarrow> if truthy v then v else JStr [])"
  using assms by (simp add: js_or_def obj_get_def split: option.splits)

lemma field_or_empty:
  assumes "k = ''name'' \<or> k = ''time_label'' \<or> k = ''description''"
  shows "js_or (record_field (JObj kvs) k) (JStr []) =
          (case map_of kvs k of None \<Rightarrow> JStr [] | Some v \<Rightarrow> if truthy v then v else JStr [])"
proof -
  have "map_of object_prototype k = None" using assms proto_fields by blast
  then show ?thesis by (simp only: record_field.simps obj_get_field)
qed

text \<open>
  Claim C1, amended. When \<^verbatim>\<open>schedule\<close> is a registered section, the sub-path \<open>r\<close> is
  not empty, does not start with an underscore and is a key of the sessions object whose
  value is truthy, and a stylesheet is available (the eager value, the fallback cell, or a
  run of the preprocessor that succeeds), the request is rendered with the template
  \<^verbatim>\<open>_amp-session\<close> and the layout \<^verbatim>\<open>amp\<close>; title, time label and description are the
  record's \<^verbatim>\<open>name\<close>, \<^verbatim>\<open>time_label\<close> and \<^verbatim>\<open>description\<close> when these are truthy and
  the empty string otherwise, in particular when the record omits the field.
\<close>

theorem schedule_session_renders_amp:
  assumes "''schedule'' \<in> set (sections cfg)"
    and "map_of (schedule_sessions cfg) r = Some data" and "truthy data"
    and "r \<noteq> []" and "\<not> startsWith r ''_''"
    and "prodAmpCss cfg \<noteq> None \<or> fallbackProdAmpCss st \<noteq> None \<or> \<not> isl less_out"
  shows "(\<exists>hdrs sc st'.
            handler cfg less_out st c ''schedule'' (Some r) = (Rendered hdrs ''_amp-session'' sc, st')
          \<and> layout sc = ''amp''
          \<and> title sc = Some (js_or (record_field data ''name'') (JStr []))
          \<and> time_label sc = Some (js_or (record_field data ''time_label'') (JStr []))
          \<and> description sc = Some (js_or (record_field data ''description'') (JStr [])))
       \<and> (\<forall>kvs k. data = JObj kvs \<and> (k = ''name'' \<or> k = ''time_label'' \<or> k = ''description'') \<longrightarrow>
             js_or (record_field data k) (JStr []) =
               (case map_of kvs k of None \<Rightarrow> JStr [] | Some v \<Rightarrow> if truthy v then v else JStr []))"
proof (rule conjI)
  have d: "obj_get (schedule_sessions cfg) r = data" using assms(2) by (simp add: obj_get_def)
  obtain css st' where a: "amp_css cfg less_out st = (Inr css, st')"
    using amp_css_available [OF assms(6)] by blast
  have t: "truthy (obj_get (schedule_sessions cfg) r)" using assms(3) d by simp
  have h: "handler cfg less_out st c ''schedule'' (Some r) =
         (Rendered [(''Feature-Policy'', policyHeader cfg)] ''_amp-session''
            \<lparr>year = 2018, prod_flag = isProd cfg, base = mountUrl c, layout = ''amp'',
             ua = ''UA-41980257-1'', conversion = 935743779,
             sourcePrefix = sourcePrefix_const cfg, days = days_const cfg,
             sitePrefix = Some ((if isProd cfg then ''https://'' else ''http://'')
                                 @ js_string (host c) @ mountUrl c),
             title = Some (js_or (record_field data ''name'') (JStr [])),
             time_label = Some (js_or (record_field data ''time_label'') (JStr [])),
             description = Some (js_or (record_field data ''description'') (JStr [])),
             payload = Some data,
             styles = Some css\<rparr>,
          st')"
    using handler_amp [OF assms(1) assms(4) t assms(5), of less_out st c]
    by (simp only: a d prod.case sum.case)
  show "\<exists>hdrs sc st'.
            handler cfg less_out st c ''schedule'' (Some r) = (Rendered hdrs ''_amp-session'' sc, st')
          \<and> layout sc = ''amp''
          \<and> title sc = Some (js_or (record_field data ''name'') (JStr []))
          \<and> time_label sc = Some (js_or (record_field data ''time_label'') (JStr []))
          \<and> description sc = Some (js_or (record_field data ''description'') (JStr []))"
    by (intro exI conjI, rule h) simp_all
next
  show "\<forall>kvs k. data = JObj kvs \<and> (k = ''name'' \<or> k = ''time_label'' \<or> k = ''description'') \<longrightarrow>
             js_or (record_field data k) (JStr []) =
               (case map_of kvs k of None \<Rightarrow> JStr [] | Some v \<Rightarrow> if truthy v then v else JStr [])"
    using field_or_empty by blast
qed

theorem schedule_session_renders_amp_witness:
  "\<exists>hdrs sc st'.
      handler \<lparr>isProd = True,
               schedule_sessions = [(''abc'', JObj [(''name'', JStr ''Keynote''), (''time_label'', JNum 0)])],
               days_const = JNull, policyHeader = ''p'', prodAmpCss = Some ''b'',
               sections = [''schedule'']\<rparr>
        (Inl ''e'') \<lparr>fallbackProdAmpCss = None, less_calls = 0\<rparr>
        \<lparr>url = ''/schedule/abc'', originalUrl = None, host = Some ''h''\<rparr> ''schedule'' (Some ''abc'')
      = (Rendered hdrs ''_amp-session'' sc, st')
    \<and> layout sc = ''amp''
    \<and> title sc = Some (JStr ''Keynote'')
    \<and> time_label sc = Some (JStr [])
    \<and> description sc = Some (JStr [])"
  using schedule_session_renders_amp [of
      "\<lparr>isProd = True,
        schedule_sessions = [(''abc'', JObj [(''name'', JStr ''Keynote''), (''time_label'', JNum 0)])],
        days_const = JNull, policyHeader = ''p'', prodAmpCss = Some ''b'',
        sections = [''schedule'']\<rparr>"
      "''abc''" "JObj [(''name'', JStr ''Keynote''), (''time_label'', JNum 0)]"
      "\<lparr>fallbackProdAmpCss = None, less_calls = 0\<rparr>" "Inl ''e''"
      "\<lparr>url = ''/schedule/abc'', originalUrl = None, host = Some ''h''\<rparr>"]
  by (simp add: startsWith_def js_or_def obj_get_def proto_fields)

text \<open>
  Claim C1, as stated, fails. A key whose value is \<^verbatim>\<open>null\<close> is deferred; with no stylesheet
  stored, a rejection of \<^verbatim>\<open>less.render\<close> ends the request without a render; a record
  whose \<^verbatim>\<open>name\<close> is \<^verbatim>\<open>0\<close> is rendered with the title \<^verbatim>\<open>''\<close>; and nothing is
  rendered when \<^verbatim>\<open>schedule\<close> is not a registered section.
\<close>

theorem schedule_session_renders_amp_counterexample:
  "''schedule'' \<in> set [''schedule'']
   \<and> map_of [(''abc'', JNull), (''xyz'', JObj [(''name'', JNum 0)])] ''abc'' = Some JNull
   \<and> \<not> startsWith ''abc'' ''_''
   \<and> handler \<lparr>isProd = True, schedule_sessions = [(''abc'', JNull), (''xyz'', JObj [(''name'', JNum 0)])],
               days_const = JNull, policyHeader = ''p'', prodAmpCss = Some ''b'',
               sections = [''schedule'']\<rparr>
        (Inr ''css'') \<lparr>fallbackProdAmpCss = None, less_calls = 0\<rparr>
        \<lparr>url = ''/schedule/abc'', originalUrl = None, host = Some ''h''\<rparr> ''schedule'' (Some ''abc'')
      = (Deferred, \<lparr>fallbackProdAmpCss = None, less_calls = 0\<rparr>)
   \<and> handler \<lparr>isProd = True, schedule_sessions = [(''abc'', JNull), (''xyz'', JObj [(''name'', JNum 0)])],
               days_const = JNull, policyHeader = ''p'', prodAmpCss = None,
               sections = [''schedule'']\<rparr>
        (Inl ''less failed'') \<lparr>fallbackProdAmpCss = None, less_calls = 0\<rparr>
        \<lparr>url = ''/schedule/xyz'', originalUrl = None, host = Some ''h''\<rparr> ''schedule'' (Some ''xyz'')
      = (Failed ''less failed'', \<lparr>fallbackProdAmpCss = None, less_calls = 1\<rparr>)
   \<and> handler \<lparr>isProd = True, schedule_sessions = [(''abc'', JNull), (''xyz'', JObj [(''name'', JNum 0)])],
               days_const = JNull, policyHeader = ''p'', prodAmpCss = Some ''b'',
               sections = [''schedule'']\<rparr>
        (Inr ''css'') \<lparr>fallbackProdAmpCss = None, less_calls = 0\<rparr>
        \<lparr>url = ''/schedule/xyz'', originalUrl = None, host = Some ''h''\<rparr> ''schedule'' (Some ''xyz'')
      = (Rendered [(''Feature-Policy'', ''p'')] ''_amp-session''
           \<lparr>year = 2018, prod_flag = True, base = [], layout = ''amp'',
            ua = ''UA-41980257-1'', conversion = 935743779,
            sourcePrefix = ''res'', days = JNull,
            sitePrefix = Some ''https://h'',
            title = Some (JStr []), time_label = Some (JStr []),
            description = Some (JStr []), payload = Some (JObj [(''name'', JNum 0)]),
            styles = Some (JBuf ''b'')\<rparr>,
         \<lparr>fallbackProdAmpCss = None, less_calls = 0\<rparr>)
   \<and> handler \<lparr>isProd = True, schedule_sessions = [(''abc'', JNull), (''xyz'', JObj [(''name'', JNum 0)])],
               days_const = JNull, policyHeader = ''p'', prodAmpCss = Some ''b'',
               sections = [''index'']\<rparr>
        (Inr ''css'') \<lparr>fallbackProdAmpCss = None, less_calls = 0\<rparr>
        \<lparr>url = ''/schedule/xyz'', originalUrl = None, host = Some ''h''\<rparr> ''schedule'' (Some ''xyz'')
      = (Deferred, \<lparr>fallbackProdAmpCss = None, less_calls = 0\<rparr>)"
  by (simp add: handler_def Let_def startsWith_def obj_get_def object_prototype_def amp_css_def
      js_or_def mountUrl_def sourcePrefix_const_def)

text \<open>
  Claim C2 says that a sub-path that is absent from the sessions mapping is deferred. The
  lookup \<^verbatim>\<open>schedule.sessions[rest]\<close> also finds what a plain object inherits: for the
  sub-path \<^verbatim>\<open>constructor\<close>, which is no key of the sessions and does not start with an
  underscore, the value read is the function \<^verbatim>\<open>Object\<close>, which is truthy, and the request
  is rendered as an AMP page with the title \<^verbatim>\<open>Object\<close>.
\<close>

theorem inherited_property_renders:
  "map_of [(''abc'', JObj [])] ''constructor'' = None
   \<and> \<not> startsWith ''constructor'' ''_''
   \<and> handler \<lparr>isProd = True, schedule_sessions = [(''abc'', JObj [])],
               days_const = JNull, policyHeader = ''p'', prodAmpCss = Some ''b'',
               sections = [''schedule'']\<rparr>
        (Inr ''css'') \<lparr>fallbackProdAmpCss = None, less_calls = 0\<rparr>
        \<lparr>url = ''/schedule/constructor'', originalUrl = None, host = Some ''h''\<rparr>
        ''schedule'' (Some ''constructor'')
      = (Rendered [(''Feature-Policy'', ''p'')] ''_amp-session''
           \<lparr>year = 2018, prod_flag = True, base = [], layout = ''amp'',
            ua = ''UA-41980257-1'', conversion = 935743779,
            sourcePrefix = ''res'', days = JNull,
            sitePrefix = Some ''https://h'',
            title = Some (JStr ''Object''), time_label = Some (JStr []),
            description = Some (JStr []), payload = Some (JFun ''Object''),
            styles = Some (JBuf ''b'')\<rparr>,
         \<lparr>fallbackProdAmpCss = None, less_calls = 0\<rparr>)"
  by (simp add: handler_def Let_def startsWith_def obj_get_def object_prototype_def amp_css_def
      js_or_def mountUrl_def sourcePrefix_const_def)

theorem inherited_property_renders_witness:
  "fst (handler \<lparr>isProd = True, schedule_sessions = [(''abc'', JObj [])],
               days_const = JNull, policyHeader = ''p'', prodAmpCss = Some ''b'',
               sections = [''schedule'']\<rparr>
        (Inr ''css'') \<lparr>fallbackProdAmpCss = None, less_calls = 0\<rparr>
        \<lparr>url = ''/schedule/constructor'', originalUrl = None, host = Some ''h''\<rparr>
        ''schedule'' (Some ''constructor'')) \<noteq> Deferred"
  using inherited_property_renders by simp

section \<open>The stylesheet of the AMP pages\<close>

lemma amp_css_eager:
  "prodAmpCss cfg = Some buf \<Longrightarrow> amp_css cfg less_out st = (Inr (JBuf buf), st)"
  by (simp add: amp_css_def js_or_def)

lemma amp_css_stored:
  "prodAmpCss cfg = None \<Longrightarrow> fallbackProdAmpCss st = Some s
    \<Longrightarrow> amp_css cfg less_out st = (Inr (JStr s), st)"
  by (simp add: amp_css_def js_or_def)

lemma amp_css_render:
  "prodAmpCss cfg = None \<Longrightarrow> fallbackProdAmpCss st = None
    \<Longrightarrow> amp_css cfg less_out st =
        (case less_out of
           Inl err \<Rightarrow> (Inl err, st\<lparr>less_calls := Suc (less_calls st)\<rparr>)
         | Inr t \<Rightarrow> (Inr (JStr t),
                     if isProd cfg
                     then st\<lparr>less_calls := Suc (less_calls st), fallbackProdAmpCss := Some t\<rparr>
                     else st\<lparr>less_calls := Suc (less_calls st)\<rparr>))"
  by (simp add: amp_css_def js_or_def Let_def split: sum.splits)

lemma serve_amp:
  assumes "amp_request cfg rq"
  shows "snd (serve cfg st rq) = snd (amp_css cfg (req_less rq) st)"
    and "outcome_styles (fst (serve cfg st rq)) =
           (case fst (amp_css cfg (req_less rq) st) of Inl err \<Rightarrow> None | Inr css \<Rightarrow> Some css)"
proof -
  obtain r where r: "req_rest rq = Some r" "r \<noteq> []"
      "truthy (obj_get (schedule_sessions cfg) r)" "\<not> startsWith r ''_''"
    using assms by (auto simp: amp_request_def split: option.splits)
  have p: "req_path rq = ''schedule''" "''schedule'' \<in> set (sections cfg)"
    using assms by (auto simp: amp_request_def)
  note h = handler_amp [OF p(2) r(2) r(3) r(4), of "req_less rq" st "req_ctx rq"]
  show "snd (serve cfg st rq) = snd (amp_css cfg (req_less rq) st)"
    unfolding serve_def p(1) r(1) h by (simp split: prod.splits sum.splits)
  show "outcome_styles (fst (serve cfg st rq)) =
           (case fst (amp_css cfg (req_less rq) st) of Inl err \<Rightarrow> None | Inr css \<Rightarrow> Some css)"
    unfolding serve_def p(1) r(1) h by (simp split: prod.splits sum.splits)
qed

lemma serve_other:
  assumes "\<not> amp_request cfg rq"
  shows "snd (serve cfg st rq) = st"
  using assms
  by (auto simp: serve_def handler_def amp_request_def Let_def indexOf_none split: option.splits)

lemma startup_dev:
  assumes "startup False fs dirname sessions ds pol = Inr (cfg, st)"
  shows "\<not> isProd cfg \<and> prodAmpCss cfg = None \<and> fallbackProdAmpCss st = None"
  using assms by (auto simp: startup_def Let_def split: sum.splits)

text \<open>The two halves together are the handler run without interruption.\<close>

lemma handler_two_phase:
  "handler cfg less_out st c path rest =
     (case handler_start cfg st c path rest of
        (Inl out, st') \<Rightarrow> (out, st')
      | (Inr susp, st') \<Rightarrow> handler_resume cfg less_out st' susp)"
  by (cases less_out)
     (auto simp: handler_def handler_start_def handler_resume_def amp_css_def amp_scope_def Let_def
           split: option.splits)

lemma handler_start_other:
  assumes "\<not> amp_request cfg rq"
  shows "\<exists>out. handler_start cfg st (req_ctx rq) (req_path rq) (req_rest rq) = (Inl out, st)
           \<and> outcome_styles out = None"
  using assms
  by (auto simp: handler_start_def amp_request_def Let_def indexOf_none split: option.splits)

lemma handler_start_amp:
  assumes "amp_request cfg rq"
  shows "handler_start cfg st (req_ctx rq) (req_path rq) (req_rest rq) =
    (case prodAmpCss cfg of
       Some buf \<Rightarrow>
         (Inl (Rendered [(''Feature-Policy'', policyHeader cfg)] ''_amp-session''
                (amp_scope
                   \<lparr>year = 2018, prod_flag = isProd cfg, base = mountUrl (req_ctx rq),
                    layout = ''devsummit'', ua = ''UA-41980257-1'', conversion = 935743779,
                    sourcePrefix = sourcePrefix_const cfg, days = days_const cfg,
                    sitePrefix = None, title = None, time_label = None, description = None,
                    payload = None, styles = None\<rparr>
                   ((if isProd cfg then ''https://'' else ''http://'')
                     @ js_string (host (req_ctx rq)) @ mountUrl (req_ctx rq))
                   (obj_get (schedule_sessions cfg) (the (req_rest rq)))
                   (JBuf buf))), st)
     | None \<Rightarrow>
        (case fallbackProdAmpCss st of
           Some s \<Rightarrow>
             (Inl (Rendered [(''Feature-Policy'', policyHeader cfg)] ''_amp-session''
                (amp_scope
                   \<lparr>year = 2018, prod_flag = isProd cfg, base = mountUrl (req_ctx rq),
                    layout = ''devsummit'', ua = ''UA-41980257-1'', conversion = 935743779,
                    sourcePrefix = sourcePrefix_const cfg, days = days_const cfg,
                    sitePrefix = None, title = None, time_label = None, description = None,
                    payload = None, styles = None\<rparr>
                   ((if isProd cfg then ''https://'' else ''http://'')
                     @ js_string (host (req_ctx rq)) @ mountUrl (req_ctx rq))
                   (obj_get (schedule_sessions cfg) (the (req_rest rq)))
                   (JStr s))), st)
         | None \<Rightarrow>
             (Inr \<lparr>susp_scope =
                    \<lparr>year = 2018, prod_flag = isProd cfg, base = mountUrl (req_ctx rq),
                     layout = ''devsummit'', ua = ''UA-41980257-1'', conversion = 935743779,
                     sourcePrefix = sourcePrefix_const cfg, days = days_const cfg,
                     sitePrefix = None, title = None, time_label = None, description = None,
                     payload = None, styles = None\<rparr>,
                   susp_site = (if isProd cfg then ''https://'' else ''http://'')
                     @ js_string (host (req_ctx rq)) @ mountUrl (req_ctx rq),
                   susp_data = obj_get (schedule_sessions cfg) (the (req_rest rq))\<rparr>,
              st\<lparr>less_calls := Suc (less_calls st)\<rparr>)))"
proof -
  obtain r where r: "req_rest rq = Some r" "r \<noteq> []"
      "truthy (obj_get (schedule_sessions cfg) r)" "\<not> startsWith r ''_''"
    using assms by (auto simp: amp_request_def split: option.splits)
  have p: "req_path rq = ''schedule''" "''schedule'' \<in> set (sections cfg)"
    using assms by (auto simp: amp_request_def)
  show ?thesis
    using r p
    by (simp add: handler_start_def Let_def indexOf_none js_or_def split: option.splits)
qed

lemma styles_amp_scope: "styles (amp_scope sc site data css) = Some css"
  by (simp add: amp_scope_def)

text \<open>Arrivals.\<close>

lemma arrive_other:
  assumes "\<not> amp_request cfg rq"
  shows "snd (step cfg sv (Arrive rq)) = sv"
  using handler_start_other [OF assms, of "cells sv"] by auto

lemma arrive_eager:
  assumes "prodAmpCss cfg = Some buf"
  shows "snd (step cfg sv (Arrive rq)) = sv"
proof (cases "amp_request cfg rq")
  case True
  then show ?thesis by (simp add: handler_start_amp assms)
next
  case False
  then show ?thesis by (rule arrive_other)
qed

lemma arrive_stored:
  assumes "prodAmpCss cfg = None" and "fallbackProdAmpCss (cells sv) = Some s"
  shows "snd (step cfg sv (Arrive rq)) = sv"
    and "amp_request cfg rq \<Longrightarrow> event_styles (fst (step cfg sv (Arrive rq))) = Some (JStr s)"
proof -
  show "snd (step cfg sv (Arrive rq)) = sv"
  proof (cases "amp_request cfg rq")
    case True
    then show ?thesis by (simp add: handler_start_amp assms)
  next
    case False
    then show ?thesis by (rule arrive_other)
  qed
  show "amp_request cfg rq \<Longrightarrow> event_styles (fst (step cfg sv (Arrive rq))) = Some (JStr s)"
    by (simp add: handler_start_amp assms styles_amp_scope)
qed

lemma arrive_empty:
  assumes "prodAmpCss cfg = None" and "fallbackProdAmpCss (cells sv) = None"
    and "amp_request cfg rq"
  shows "fst (step cfg sv (Arrive rq)) = None"
    and "cells (snd (step cfg sv (Arrive rq))) = (cells sv)\<lparr>less_calls := Suc (less_calls (cells sv))\<rparr>"
    and "\<exists>susp. pending (snd (step cfg sv (Arrive rq))) = pending sv @ [(susp, req_less rq)]"
  using assms by (simp_all add: handler_start_amp)

text \<open>Settlements.\<close>

lemma settle_calls: "less_calls (cells (snd (step cfg sv (Settle i)))) = less_calls (cells sv)"
  by (cases "snd (pending sv ! i)") (simp_all add: handler_resume_def)

lemma settle_text:
  assumes "i < length (pending sv)" and "snd (pending sv ! i) = Inr t"
  shows "event_styles (fst (step cfg sv (Settle i))) = Some (JStr t)"
    and "cells (snd (step cfg sv (Settle i))) =
          (if isProd cfg then (cells sv)\<lparr>fallbackProdAmpCss := Some t\<rparr> else cells sv)"
    and "pending (snd (step cfg sv (Settle i))) = take i (pending sv) @ drop (Suc i) (pending sv)"
  using assms by (simp_all add: handler_resume_def styles_amp_scope)

lemma settle_rejected:
  assumes "i < length (pending sv)" and "snd (pending sv ! i) = Inl err"
  shows "fst (step cfg sv (Settle i)) = Some (Failed err)"
    and "cells (snd (step cfg sv (Settle i))) = cells sv"
  using assms by (simp_all add: handler_resume_def)

lemma settle_none: "pending sv = [] \<Longrightarrow> step cfg sv (Settle i) = (None, sv)"
  by simp

lemma settle_keeps_filled:
  assumes "fallbackProdAmpCss (cells sv) \<noteq> None"
  shows "fallbackProdAmpCss (cells (snd (step cfg sv (Settle i)))) \<noteq> None"
  using assms by (cases "snd (pending sv ! i)") (simp_all add: handler_resume_def)

lemma settle_dev:
  assumes "\<not> isProd cfg"
  shows "cells (snd (step cfg sv (Settle i))) = cells sv"
  using assms by (cases "snd (pending sv ! i)") (simp_all add: handler_resume_def)

lemma run_Cons:
  "run cfg sv (e # es) =
     (fst (step cfg sv e) # fst (run cfg (snd (step cfg sv e)) es),
      snd (run cfg (snd (step cfg sv e)) es))"
  by (simp add: case_prod_unfold)

text \<open>Eager value present: the number of calls never changes.\<close>

lemma step_eager:
  assumes "prodAmpCss cfg = Some buf"
  shows "less_calls (cells (snd (step cfg sv e))) = less_calls (cells sv)"
  by (cases e) (simp_all only: arrive_eager [OF assms] settle_calls)

lemma run_eager:
  assumes "prodAmpCss cfg = Some buf"
  shows "less_calls (cells (snd (run cfg sv es))) = less_calls (cells sv)"
  by (induction es arbitrary: sv)
     (simp_all add: run_Cons step_eager [OF assms] del: run.simps(2))

text \<open>Once the cell is filled it stays filled, and no call is made.\<close>

lemma step_filled:
  assumes "prodAmpCss cfg = None" and "fallbackProdAmpCss (cells sv) \<noteq> None"
  shows "fallbackProdAmpCss (cells (snd (step cfg sv e))) \<noteq> None"
    and "less_calls (cells (snd (step cfg sv e))) = less_calls (cells sv)"
proof -
  obtain s where s: "fallbackProdAmpCss (cells sv) = Some s" using assms(2) by auto
  show "fallbackProdAmpCss (cells (snd (step cfg sv e))) \<noteq> None"
  proof (cases e)
    case (Arrive rq)
    then show ?thesis using arrive_stored(1) [OF assms(1) s, of rq] s by simp
  next
    case (Settle i)
    then show ?thesis using settle_keeps_filled [OF assms(2), of cfg i] by simp
  qed
  show "less_calls (cells (snd (step cfg sv e))) = less_calls (cells sv)"
  proof (cases e)
    case (Arrive rq)
    then show ?thesis using arrive_stored(1) [OF assms(1) s, of rq] by simp
  next
    case (Settle i)
    then show ?thesis by (simp only: settle_calls)
  qed
qed

lemma run_filled:
  assumes "prodAmpCss cfg = None"
  shows "fallbackProdAmpCss (cells sv) \<noteq> None \<Longrightarrow>
         fallbackProdAmpCss (cells (snd (run cfg sv es))) \<noteq> None \<and>
         less_calls (cells (snd (run cfg sv es))) = less_calls (cells sv)"
proof (induction es arbitrary: sv)
  case Nil
  then show ?case by simp
next
  case (Cons e es)
  note s = step_filled [OF assms Cons.prems, of e]
  from Cons.IH [OF s(1)] s(2) show ?case
    by (simp add: run_Cons del: run.simps(2))
qed

text \<open>Cell filled and nothing pending: nothing changes, AMP pages get the stored text.\<close>

lemma step_quiet:
  assumes "prodAmpCss cfg = None" and "fallbackProdAmpCss (cells sv) = Some s"
    and "pending sv = []"
  shows "snd (step cfg sv e) = sv"
    and "amp_arrival cfg e \<longrightarrow> event_styles (fst (step cfg sv e)) = Some (JStr s)"
proof -
  show "snd (step cfg sv e) = sv"
  proof (cases e)
    case (Arrive rq)
    then show ?thesis using arrive_stored(1) [OF assms(1,2), of rq] by simp
  next
    case (Settle i)
    then show ?thesis using assms(3) by simp
  qed
  show "amp_arrival cfg e \<longrightarrow> event_styles (fst (step cfg sv e)) = Some (JStr s)"
  proof (cases e)
    case (Arrive rq)
    then show ?thesis using arrive_stored(2) [OF assms(1,2), of rq] by simp
  next
    case (Settle i)
    then show ?thesis by simp
  qed
qed

lemma run_quiet:
  assumes "prodAmpCss cfg = None" and "fallbackProdAmpCss (cells sv) = Some s"
    and "pending sv = []"
  shows "snd (run cfg sv es) = sv \<and>
         list_all2 (\<lambda>e out. amp_arrival cfg e \<longrightarrow> event_styles out = Some (JStr s))
           es (fst (run cfg sv es))"
  by (induction es) (simp_all add: run_Cons step_quiet [OF assms] del: run.simps(2))

text \<open>Outside production: the cell stays empty, every AMP arrival is one more call.\<close>

lemma step_dev:
  assumes "\<not> isProd cfg" and "prodAmpCss cfg = None" and "fallbackProdAmpCss (cells sv) = None"
  shows "fallbackProdAmpCss (cells (snd (step cfg sv e))) = None"
    and "less_calls (cells (snd (step cfg sv e)))
          = less_calls (cells sv) + (if amp_arrival cfg e then 1 else 0)"
proof -
  show "fallbackProdAmpCss (cells (snd (step cfg sv e))) = None"
  proof (cases e)
    case (Arrive rq)
    show ?thesis
    proof (cases "amp_request cfg rq")
      case True
      then show ?thesis using arrive_empty(2) [OF assms(2,3) True] assms(3) Arrive by simp
    next
      case False
      then show ?thesis using arrive_other [OF False, of sv] assms(3) Arrive by simp
    qed
  next
    case (Settle i)
    then show ?thesis using settle_dev [OF assms(1), of sv i] assms(3) by simp
  qed
  show "less_calls (cells (snd (step cfg sv e)))
          = less_calls (cells sv) + (if amp_arrival cfg e then 1 else 0)"
  proof (cases e)
    case (Arrive rq)
    show ?thesis
    proof (cases "amp_request cfg rq")
      case True
      then show ?thesis using arrive_empty(2) [OF assms(2,3) True] Arrive by simp
    next
      case False
      then show ?thesis using arrive_other [OF False, of sv] Arrive by simp
    qed
  next
    case (Settle i)
    then show ?thesis using settle_dev [OF assms(1), of sv i] by simp
  qed
qed

lemma run_dev:
  assumes "\<not> isProd cfg" and "prodAmpCss cfg = None"
  shows "fallbackProdAmpCss (cells sv) = None \<Longrightarrow>
         fallbackProdAmpCss (cells (snd (run cfg sv es))) = None \<and>
         less_calls (cells (snd (run cfg sv es)))
           = less_calls (cells sv) + length (filter (amp_arrival cfg) es)"
proof (induction es arbitrary: sv)
  case Nil
  then show ?case by simp
next
  case (Cons e es)
  note s = step_dev [OF assms Cons.prems, of e]
  from Cons.IH [OF s(1)] s(2) show ?case
    by (simp add: run_Cons del: run.simps(2))
qed

text \<open>The first AMP request, settled with a text before anything else happens.\<close>

lemma first_request_settled:
  assumes "isProd cfg" and "prodAmpCss cfg = None" and "fallbackProdAmpCss (cells sv) = None"
    and "pending sv = []" and "amp_request cfg rq" and "req_less rq = Inr css"
  shows "snd (run cfg sv [Arrive rq, Settle 0]) =
           sv\<lparr>cells := (cells sv)\<lparr>less_calls := Suc (less_calls (cells sv)),
                                   fallbackProdAmpCss := Some css\<rparr>\<rparr>"
    and "map event_styles (fst (run cfg sv [Arrive rq, Settle 0])) = [None, Some (JStr css)]"
proof -
  let ?sv1 = "snd (step cfg sv (Arrive rq))"
  obtain susp where p: "pending ?sv1 = [(susp, Inr css)]"
    using arrive_empty(3) [OF assms(2,3,5)] assms(4,6) by auto
  have c: "cells ?sv1 = (cells sv)\<lparr>less_calls := Suc (less_calls (cells sv))\<rparr>"
    by (rule arrive_empty(2) [OF assms(2,3,5)])
  have o: "fst (step cfg sv (Arrive rq)) = None"
    by (rule arrive_empty(1) [OF assms(2,3,5)])
  have m: "server.more ?sv1 = server.more sv"
    using assms(2,3,5) by (simp add: handler_start_amp)
  have i: "0 < length (pending ?sv1)" "snd (pending ?sv1 ! 0) = Inr css" using p by simp_all
  note t = settle_text [OF i, of cfg]
  have "snd (step cfg ?sv1 (Settle 0)) =
          sv\<lparr>cells := (cells sv)\<lparr>less_calls := Suc (less_calls (cells sv)),
                                  fallbackProdAmpCss := Some css\<rparr>\<rparr>"
    using t(2,3) c p m assms(1,4) by (intro server.equality) simp_all
  then show "snd (run cfg sv [Arrive rq, Settle 0]) =
           sv\<lparr>cells := (cells sv)\<lparr>less_calls := Suc (less_calls (cells sv)),
                                   fallbackProdAmpCss := Some css\<rparr>\<rparr>"
    by (simp add: run_Cons del: run.simps(2) step.simps)
  show "map event_styles (fst (run cfg sv [Arrive rq, Settle 0])) = [None, Some (JStr css)]"
    using o t(1) by (simp add: run_Cons del: run.simps(2) step.simps)
qed

lemma run_append:
  "run cfg sv (es @ fs) =
     (fst (run cfg sv es) @ fst (run cfg (snd (run cfg sv es)) fs),
      snd (run cfg (snd (run cfg sv es)) fs))"
  by (induction es arbitrary: sv) (simp_all add: run_Cons del: run.simps(2))

text \<open>
  Claim C4, amended. Over any interleaving of requests: in production with the eager
  stylesheet present \<^verbatim>\<open>less.render\<close> is never called. In production without it, every
  AMP request that arrives while the fallback cell is empty calls \<^verbatim>\<open>less.render\<close> and
  waits; when its call returns a text the page is rendered with it and the text is stored in
  the cell, and when its call is rejected nothing is stored. A request that arrives while the
  cell is filled leaves the state as it is, and an AMP request is then rendered with the
  stored text; once filled the cell is never emptied and no call is made any more. In
  particular, when the call of the first AMP request returns a text before any other request
  arrives, \<^verbatim>\<open>less.render\<close> is called exactly once and every later AMP request is rendered
  with that text. Outside production nothing is ever stored and every AMP request calls
  \<^verbatim>\<open>less.render\<close>.
\<close>

theorem amp_css_cache:
  "(isProd cfg \<and> prodAmpCss cfg = Some buf \<longrightarrow>
      less_calls (cells (snd (run cfg sv es))) = less_calls (cells sv))
   \<and> (isProd cfg \<and> prodAmpCss cfg = None \<and> fallbackProdAmpCss (cells sv) = None
        \<and> amp_request cfg rq \<longrightarrow>
        fst (step cfg sv (Arrive rq)) = None
      \<and> less_calls (cells (snd (step cfg sv (Arrive rq)))) = Suc (less_calls (cells sv))
      \<and> (\<exists>susp. pending (snd (step cfg sv (Arrive rq))) = pending sv @ [(susp, req_less rq)]))
   \<and> (isProd cfg \<and> i < length (pending sv) \<and> snd (pending sv ! i) = Inr t \<longrightarrow>
        event_styles (fst (step cfg sv (Settle i))) = Some (JStr t)
      \<and> fallbackProdAmpCss (cells (snd (step cfg sv (Settle i)))) = Some t)
   \<and> (i < length (pending sv) \<and> snd (pending sv ! i) = Inl err \<longrightarrow>
        fst (step cfg sv (Settle i)) = Some (Failed err)
      \<and> cells (snd (step cfg sv (Settle i))) = cells sv)
   \<and> (isProd cfg \<and> prodAmpCss cfg = None \<and> fallbackProdAmpCss (cells sv) = Some s \<longrightarrow>
        snd (step cfg sv (Arrive rq)) = sv
      \<and> (amp_request cfg rq \<longrightarrow> event_styles (fst (step cfg sv (Arrive rq))) = Some (JStr s))
      \<and> fallbackProdAmpCss (cells (snd (run cfg sv es))) \<noteq> None
      \<and> less_calls (cells (snd (run cfg sv es))) = less_calls (cells sv))
   \<and> (isProd cfg \<and> prodAmpCss cfg = None \<and> fallbackProdAmpCss (cells sv) = None
        \<and> pending sv = [] \<and> amp_request cfg rq \<and> req_less rq = Inr css \<longrightarrow>
        less_calls (cells (snd (run cfg sv ([Arrive rq, Settle 0] @ es)))) = Suc (less_calls (cells sv))
      \<and> fallbackProdAmpCss (cells (snd (run cfg sv ([Arrive rq, Settle 0] @ es)))) = Some css
      \<and> map event_styles (take 2 (fst (run cfg sv ([Arrive rq, Settle 0] @ es))))
          = [None, Some (JStr css)]
      \<and> list_all2 (\<lambda>e out. amp_arrival cfg e \<longrightarrow> event_styles out = Some (JStr css))
           es (drop 2 (fst (run cfg sv ([Arrive rq, Settle 0] @ es)))))
   \<and> (\<not> isProd cfg \<and> prodAmpCss cfg = None \<and> fallbackProdAmpCss (cells sv) = None \<longrightarrow>
        fallbackProdAmpCss (cells (snd (run cfg sv es))) = None
      \<and> less_calls (cells (snd (run cfg sv es)))
          = less_calls (cells sv) + length (filter (amp_arrival cfg) es))"
proof (intro conjI impI)
  assume "isProd cfg \<and> prodAmpCss cfg = Some buf"
  then show "less_calls (cells (snd (run cfg sv es))) = less_calls (cells sv)"
    by (simp add: run_eager)
next
  assume h: "isProd cfg \<and> prodAmpCss cfg = None \<and> fallbackProdAmpCss (cells sv) = None
        \<and> amp_request cfg rq"
  then have a: "prodAmpCss cfg = None" "fallbackProdAmpCss (cells sv) = None" "amp_request cfg rq"
    by simp_all
  show "fst (step cfg sv (Arrive rq)) = None" by (rule arrive_empty(1) [OF a])
  show "less_calls (cells (snd (step cfg sv (Arrive rq)))) = Suc (less_calls (cells sv))"
    by (simp add: arrive_empty(2) [OF a] del: step.simps)
  show "\<exists>susp. pending (snd (step cfg sv (Arrive rq))) = pending sv @ [(susp, req_less rq)]"
    by (rule arrive_empty(3) [OF a])
next
  assume h: "isProd cfg \<and> i < length (pending sv) \<and> snd (pending sv ! i) = Inr t"
  then have a: "i < length (pending sv)" "snd (pending sv ! i) = Inr t" by simp_all
  show "event_styles (fst (step cfg sv (Settle i))) = Some (JStr t)"
    by (rule settle_text(1) [OF a])
  show "fallbackProdAmpCss (cells (snd (step cfg sv (Settle i)))) = Some t"
    using h by (simp add: settle_text(2) [OF a] del: step.simps)
next
  assume h: "i < length (pending sv) \<and> snd (pending sv ! i) = Inl err"
  then have a: "i < length (pending sv)" "snd (pending sv ! i) = Inl err" by simp_all
  show "fst (step cfg sv (Settle i)) = Some (Failed err)" by (rule settle_rejected(1) [OF a])
  show "cells (snd (step cfg sv (Settle i))) = cells sv" by (rule settle_rejected(2) [OF a])
next
  assume h: "isProd cfg \<and> prodAmpCss cfg = None \<and> fallbackProdAmpCss (cells sv) = Some s"
  then have a: "prodAmpCss cfg = None" "fallbackProdAmpCss (cells sv) = Some s" by simp_all
  have f: "fallbackProdAmpCss (cells sv) \<noteq> None" using a(2) by simp
  show "snd (step cfg sv (Arrive rq)) = sv" by (rule arrive_stored(1) [OF a])
  show "event_styles (fst (step cfg sv (Arrive rq))) = Some (JStr s)" if "amp_request cfg rq"
    using that by (rule arrive_stored(2) [OF a])
  show "fallbackProdAmpCss (cells (snd (run cfg sv es))) \<noteq> None"
    using run_filled [OF a(1) f, of es] by simp
  show "less_calls (cells (snd (run cfg sv es))) = less_calls (cells sv)"
    using run_filled [OF a(1) f, of es] by simp
next
  assume h: "isProd cfg \<and> prodAmpCss cfg = None \<and> fallbackProdAmpCss (cells sv) = None
        \<and> pending sv = [] \<and> amp_request cfg rq \<and> req_less rq = Inr css"
  then have a: "isProd cfg" "prodAmpCss cfg = None" "fallbackProdAmpCss (cells sv) = None"
      "pending sv = []" "amp_request cfg rq" "req_less rq = Inr css"
    by simp_all
  let ?sv2 = "sv\<lparr>cells := (cells sv)\<lparr>less_calls := Suc (less_calls (cells sv)),
                                     fallbackProdAmpCss := Some css\<rparr>\<rparr>"
  note first = first_request_settled [OF a]
  have c: "fallbackProdAmpCss (cells ?sv2) = Some css" and p: "pending ?sv2 = []"
    using a(4) by simp_all
  note q = run_quiet [OF a(2) c p, of es]
  have l: "length (fst (run cfg sv [Arrive rq, Settle 0])) = 2"
    by (simp add: run_Cons del: run.simps(2) step.simps)
  have r: "run cfg sv ([Arrive rq, Settle 0] @ es)
           = (fst (run cfg sv [Arrive rq, Settle 0]) @ fst (run cfg ?sv2 es), snd (run cfg ?sv2 es))"
    by (simp only: run_append first(1))
  show "less_calls (cells (snd (run cfg sv ([Arrive rq, Settle 0] @ es)))) = Suc (less_calls (cells sv))"
    unfolding r using q by simp
  show "fallbackProdAmpCss (cells (snd (run cfg sv ([Arrive rq, Settle 0] @ es)))) = Some css"
    unfolding r using q by simp
  show "map event_styles (take 2 (fst (run cfg sv ([Arrive rq, Settle 0] @ es))))
          = [None, Some (JStr css)]"
    unfolding r using l first(2) by simp
  show "list_all2 (\<lambda>e out. amp_arrival cfg e \<longrightarrow> event_styles out = Some (JStr css))
           es (drop 2 (fst (run cfg sv ([Arrive rq, Settle 0] @ es))))"
    unfolding r using l q by simp
next
  assume h: "\<not> isProd cfg \<and> prodAmpCss cfg = None \<and> fallbackProdAmpCss (cells sv) = None"
  then have d: "fallbackProdAmpCss (cells (snd (run cfg sv es))) = None \<and>
         less_calls (cells (snd (run cfg sv es)))
           = less_calls (cells sv) + length (filter (amp_arrival cfg) es)"
    using run_dev [of cfg sv es] by blast
  from d show "fallbackProdAmpCss (cells (snd (run cfg sv es))) = None" by simp
  from d show "less_calls (cells (snd (run cfg sv es)))
          = less_calls (cells sv) + length (filter (amp_arrival cfg) es)" by simp
qed

text \<open>
  Claim C4, as stated, fails in production without the eager stylesheet. When the call of
  \<^verbatim>\<open>less.render\<close> of the first AMP request is rejected nothing is stored, and the next AMP
  request calls it again; and a second AMP request that arrives while the first one waits
  for \<^verbatim>\<open>less.render\<close> finds the cell empty and calls it as well.
\<close>

theorem amp_css_cache_counterexample:
  "fallbackProdAmpCss (cells (snd (run
      \<lparr>isProd = True, schedule_sessions = [(''abc'', JObj [])], days_const = JNull,
       policyHeader = ''p'', prodAmpCss = None, sections = [''schedule'']\<rparr>
      \<lparr>cells = \<lparr>fallbackProdAmpCss = None, less_calls = 0\<rparr>, pending = []\<rparr>
      [Arrive \<lparr>req_ctx = \<lparr>url = ''/schedule/abc'', originalUrl = None, host = None\<rparr>,
               req_path = ''schedule'', req_rest = Some ''abc'', req_less = Inl ''less failed''\<rparr>,
       Settle 0]))) = None
   \<and> less_calls (cells (snd (run
      \<lparr>isProd = True, schedule_sessions = [(''abc'', JObj [])], days_const = JNull,
       policyHeader = ''p'', prodAmpCss = None, sections = [''schedule'']\<rparr>
      \<lparr>cells = \<lparr>fallbackProdAmpCss = None, less_calls = 0\<rparr>, pending = []\<rparr>
      [Arrive \<lparr>req_ctx = \<lparr>url = ''/schedule/abc'', originalUrl = None, host = None\<rparr>,
               req_path = ''schedule'', req_rest = Some ''abc'', req_less = Inl ''less failed''\<rparr>,
       Settle 0,
       Arrive \<lparr>req_ctx = \<lparr>url = ''/schedule/abc'', originalUrl = None, host = None\<rparr>,
               req_path = ''schedule'', req_rest = Some ''abc'', req_less = Inr ''css''\<rparr>,
       Settle 0]))) = 2
   \<and> less_calls (cells (snd (run
      \<lparr>isProd = True, schedule_sessions = [(''abc'', JObj [])], days_const = JNull,
       policyHeader = ''p'', prodAmpCss = None, sections = [''schedule'']\<rparr>
      \<lparr>cells = \<lparr>fallbackProdAmpCss = None, less_calls = 0\<rparr>, pending = []\<rparr>
      [Arrive \<lparr>req_ctx = \<lparr>url = ''/schedule/abc'', originalUrl = None, host = None\<rparr>,
               req_path = ''schedule'', req_rest = Some ''abc'', req_less = Inr ''css''\<rparr>,
       Arrive \<lparr>req_ctx = \<lparr>url = ''/schedule/abc'', originalUrl = None, host = None\<rparr>,
               req_path = ''schedule'', req_rest = Some ''abc'', req_less = Inr ''css''\<rparr>,
       Settle 0,
       Settle 0]))) = 2"
  by (simp add: handler_start_def handler_resume_def Let_def startsWith_def obj_get_def js_or_def)

theorem amp_css_cache_witness:
  "less_calls (cells (snd (run
      \<lparr>isProd = True, schedule_sessions = [(''abc'', JObj [])], days_const = JNull,
       policyHeader = ''p'', prodAmpCss = Some ''b'', sections = [''schedule'']\<rparr>
      \<lparr>cells = \<lparr>fallbackProdAmpCss = None, less_calls = 0\<rparr>, pending = []\<rparr>
      [Arrive \<lparr>req_ctx = \<lparr>url = ''/schedule/abc'', originalUrl = None, host = None\<rparr>,
               req_path = ''schedule'', req_rest = Some ''abc'', req_less = Inr ''css''\<rparr>,
       Arrive \<lparr>req_ctx = \<lparr>url = ''/schedule/abc'', originalUrl = None, host = None\<rparr>,
               req_path = ''schedule'', req_rest = Some ''abc'', req_less = Inr ''css''\<rparr>,
       Settle 0]))) = 0
   \<and> less_calls (cells (snd (run
      \<lparr>isProd = True, schedule_sessions = [(''abc'', JObj [])], days_const = JNull,
       policyHeader = ''p'', prodAmpCss = None, sections = [''schedule'']\<rparr>
      \<lparr>cells = \<lparr>fallbackProdAmpCss = None, less_calls = 0\<rparr>, pending = []\<rparr>
      ([Arrive \<lparr>req_ctx = \<lparr>url = ''/schedule/abc'', originalUrl = None, host = None\<rparr>,
               req_path = ''schedule'', req_rest = Some ''abc'', req_less = Inr ''css''\<rparr>,
        Settle 0] @
       [Arrive \<lparr>req_ctx = \<lparr>url = ''/schedule/abc'', originalUrl = None, host = None\<rparr>,
               req_path = ''schedule'', req_rest = Some ''abc'', req_less = Inr ''other''\<rparr>,
        Settle 0])))) = 1
   \<and> fallbackProdAmpCss (cells (snd (run
      \<lparr>isProd = True, schedule_sessions = [(''abc'', JObj [])], days_const = JNull,
       policyHeader = ''p'', prodAmpCss = None, sections = [''schedule'']\<rparr>
      \<lparr>cells = \<lparr>fallbackProdAmpCss = None, less_calls = 0\<rparr>, pending = []\<rparr>
      ([Arrive \<lparr>req_ctx = \<lparr>url = ''/schedule/abc'', originalUrl = None, host = None\<rparr>,
               req_path = ''schedule'', req_rest = Some ''abc'', req_less = Inr ''css''\<rparr>,
        Settle 0] @
       [Arrive \<lparr>req_ctx = \<lparr>url = ''/schedule/abc'', originalUrl = None, host = None\<rparr>,
               req_path = ''schedule'', req_rest = Some ''abc'', req_less = Inr ''other''\<rparr>,
        Settle 0])))) = Some ''css''
   \<and> less_calls (cells (snd (run
      \<lparr>isProd = False, schedule_sessions = [(''abc'', JObj [])], days_const = JNull,
       policyHeader = ''p'', prodAmpCss = None, sections = [''schedule'']\<rparr>
      \<lparr>cells = \<lparr>fallbackProdAmpCss = None, less_calls = 0\<rparr>, pending = []\<rparr>
      [Arrive \<lparr>req_ctx = \<lparr>url = ''/schedule/abc'', originalUrl = None, host = None\<rparr>,
               req_path = ''schedule'', req_rest = Some ''abc'', req_less = Inr ''css''\<rparr>,
       Settle 0,
       Arrive \<lparr>req_ctx = \<lparr>url = ''/schedule/abc'', originalUrl = None, host = None\<rparr>,
               req_path = ''schedule'', req_rest = Some ''abc'', req_less = Inr ''css''\<rparr>,
       Settle 0]))) = 2"
proof -
  let ?rq = "\<lparr>req_ctx = \<lparr>url = ''/schedule/abc'', originalUrl = None, host = None\<rparr>,
        req_path = ''schedule'', req_rest = Some ''abc'', req_less = Inr ''css''\<rparr>"
  let ?rq2 = "\<lparr>req_ctx = \<lparr>url = ''/schedule/abc'', originalUrl = None, host = None\<rparr>,
        req_path = ''schedule'', req_rest = Some ''abc'', req_less = Inr ''other''\<rparr>"
  let ?sv = "\<lparr>cells = \<lparr>fallbackProdAmpCss = None, less_calls = 0\<rparr>, pending = []\<rparr>"
  let ?eager = "\<lparr>isProd = True, schedule_sessions = [(''abc'', JObj [])], days_const = JNull,
       policyHeader = ''p'', prodAmpCss = Some ''b'', sections = [''schedule'']\<rparr>"
  let ?lazy = "\<lparr>isProd = True, schedule_sessions = [(''abc'', JObj [])], days_const = JNull,
       policyHeader = ''p'', prodAmpCss = None, sections = [''schedule'']\<rparr>"
  let ?dev = "\<lparr>isProd = False, schedule_sessions = [(''abc'', JObj [])], days_const = JNull,
       policyHeader = ''p'', prodAmpCss = None, sections = [''schedule'']\<rparr>"
  have a1: "amp_request ?lazy ?rq"
    by (simp add: amp_request_def obj_get_def startsWith_def)
  have a2: "length (filter (amp_arrival ?dev) [Arrive ?rq, Settle 0, Arrive ?rq, Settle 0]) = 2"
    by (simp add: amp_request_def obj_get_def startsWith_def)
  note e = amp_css_cache [where cfg = ?eager and buf = "''b''" and sv = ?sv
        and es = "[Arrive ?rq, Arrive ?rq, Settle 0]"]
  note l = amp_css_cache [where cfg = ?lazy and sv = ?sv and rq = ?rq and css = "''css''"
        and es = "[Arrive ?rq2, Settle 0]"]
  note d = amp_css_cache [where cfg = ?dev and sv = ?sv
        and es = "[Arrive ?rq, Settle 0, Arrive ?rq, Settle 0]"]
  have "less_calls (cells (snd (run ?eager ?sv [Arrive ?rq, Arrive ?rq, Settle 0]))) = 0"
    using e by (simp del: run.simps)
  moreover have "less_calls (cells (snd (run ?lazy ?sv
        ([Arrive ?rq, Settle 0] @ [Arrive ?rq2, Settle 0])))) = 1
      \<and> fallbackProdAmpCss (cells (snd (run ?lazy ?sv
        ([Arrive ?rq, Settle 0] @ [Arrive ?rq2, Settle 0])))) = Some ''css''"
    using l a1 by (simp del: run.simps append.simps)
  moreover have "less_calls (cells (snd (run ?dev ?sv
        [Arrive ?rq, Settle 0, Arrive ?rq, Settle 0]))) = 2"
    using d a2 by (simp del: run.simps)
  ultimately show ?thesis by blast
qed

text \<open>In production a readable \<^verbatim>\<open>res/amp.css\<close> is the eager stylesheet.\<close>

lemma startup_artifact_present:
  assumes "readFileSync fs (dirname @ ''/res/amp.css'') = Inr buf"
    and "startup True fs dirname sessions ds pol = Inr (cfg, st)"
  shows "isProd cfg \<and> prodAmpCss cfg = Some buf \<and> fallbackProdAmpCss st = None \<and> less_calls st = 0"
  using assms by (auto simp: startup_def readProdAmpCss_def Let_def split: sum.splits)

section \<open>Repeated requests\<close>

lemma handler_plain:
  assumes "path \<in> set (sections cfg)" and "rest = None \<or> rest = Some ''''"
  shows "handler cfg less_out st c path rest
          = (Rendered [(''Feature-Policy'', policyHeader cfg)] path
               \<lparr>year = 2018, prod_flag = isProd cfg, base = mountUrl c, layout = ''devsummit'',
                ua = ''UA-41980257-1'', conversion = 935743779,
                sourcePrefix = sourcePrefix_const cfg, days = days_const cfg,
                sitePrefix = None, title = None, time_label = None, description = None,
                payload = None, styles = None\<rparr>,
             st)"
  using assms by (auto simp: handler_def Let_def indexOf_none)

lemma handler_unregistered:
  "path \<notin> set (sections cfg) \<Longrightarrow> handler cfg less_out st c path rest = (Deferred, st)"
  by (simp add: handler_def indexOf_none)

lemma handler_other_section:
  "path \<noteq> ''schedule'' \<Longrightarrow> r \<noteq> [] \<Longrightarrow> handler cfg less_out st c path (Some r) = (Deferred, st)"
  by (simp add: handler_def Let_def)

text \<open>A rendered request is either a plain section page or an AMP session page.\<close>

lemma rendered_cases:
  assumes "handler cfg less_out st c path rest = (Rendered h p sc, st')"
  obtains (plain) "path \<in> set (sections cfg)" "rest = None \<or> rest = Some []"
  | (amp) r where "rest = Some r" "r \<noteq> []" "path = ''schedule''"
      "''schedule'' \<in> set (sections cfg)" "truthy (obj_get (schedule_sessions cfg) r)"
      "\<not> startsWith r ''_''"
proof -
  have reg: "path \<in> set (sections cfg)"
    using assms handler_unregistered [of path cfg less_out st c rest] by auto
  show thesis
  proof (cases "rest = None \<or> rest = Some []")
    case True
    with reg show thesis by (rule plain)
  next
    case False
    then obtain r where r: "rest = Some r" "r \<noteq> []" by (cases rest) auto
    have p: "path = ''schedule''"
      using assms r handler_other_section [of path r cfg less_out st c] by auto
    have g: "truthy (obj_get (schedule_sessions cfg) r) \<and> \<not> startsWith r ''_''"
      using assms r handler_defers_guard [of cfg r less_out st c path] by auto
    from r p reg g show thesis by (intro amp) auto
  qed
qed

lemma amp_css_text:
  assumes "amp_css cfg l1 st1 = (Inr css1, st1')" and "amp_css cfg l2 st1' = (Inr css2, st2')"
    and "isProd cfg \<or> l1 = l2"
  shows "css1 = css2"
proof (cases "prodAmpCss cfg")
  case (Some buf)
  then show ?thesis using assms by (simp add: amp_css_eager)
next
  case None
  show ?thesis
  proof (cases "fallbackProdAmpCss st1")
    case (Some s)
    with None assms(1) have "st1' = st1" "css1 = JStr s" by (simp_all add: amp_css_stored)
    with None Some assms(2) show ?thesis by (simp add: amp_css_stored)
  next
    case f: None
    show ?thesis
    proof (cases "isProd cfg")
      case True
      with None f assms(1) obtain t where t: "l1 = Inr t" "css1 = JStr t"
          "fallbackProdAmpCss st1' = Some t"
        by (cases l1) (auto simp: amp_css_render)
      with None assms(2) show ?thesis by (simp add: amp_css_stored)
    next
      case False
      with assms(3) have l: "l1 = l2" by simp
      from None f False assms(1) obtain t where t: "l1 = Inr t" "css1 = JStr t"
          "fallbackProdAmpCss st1' = None"
        by (cases l1) (auto simp: amp_css_render)
      with None False assms(2) l show ?thesis by (auto simp: amp_css_render)
    qed
  qed
qed

lemma handler_amp_rendered:
  assumes "''schedule'' \<in> set (sections cfg)" and "r \<noteq> []"
    and "truthy (obj_get (schedule_sessions cfg) r)" and "\<not> startsWith r ''_''"
    and "handler cfg less_out st c ''schedule'' (Some r) = (Rendered h p sc, st')"
  shows "\<exists>css. amp_css cfg less_out st = (Inr css, st')
          \<and> h = [(''Feature-Policy'', policyHeader cfg)] \<and> p = ''_amp-session''
          \<and> sc = \<lparr>year = 2018, prod_flag = isProd cfg, base = mountUrl c, layout = ''amp'',
                  ua = ''UA-41980257-1'', conversion = 935743779,
                  sourcePrefix = sourcePrefix_const cfg, days = days_const cfg,
                  sitePrefix = Some ((if isProd cfg then ''https://'' else ''http://'')
                                      @ js_string (host c) @ mountUrl c),
                  title = Some (js_or (record_field (obj_get (schedule_sessions cfg) r) ''name'') (JStr '''')),
                  time_label = Some (js_or (record_field (obj_get (schedule_sessions cfg) r) ''time_label'') (JStr '''')),
                  description = Some (js_or (record_field (obj_get (schedule_sessions cfg) r) ''description'') (JStr '''')),
                  payload = Some (obj_get (schedule_sessions cfg) r),
                  styles = Some css\<rparr>"
proof -
  obtain x s where a: "amp_css cfg less_out st = (x, s)" by (cases "amp_css cfg less_out st")
  note h = handler_amp [OF assms(1-4), of less_out st c]
  show ?thesis
  proof (cases x)
    case (Inl err)
    with assms(5) a show ?thesis by (simp only: h prod.case sum.case) simp
  next
    case (Inr css)
    with assms(5) a show ?thesis by (simp only: h prod.case sum.case) simp
  qed
qed

text \<open>
  Claim C9. Two requests with the same path, sub-path, host header and URLs, served under
  the same constants, that are both rendered get the same headers, the same template and
  scopes that agree on every field except possibly \<open>styles\<close>. When the second request
  is served from the state the first one left, the scopes are equal in production, and
  outside production they are equal when \<^verbatim>\<open>less.render\<close> returns the same result both
  times: a difference can only come from the stylesheet.
\<close>

theorem render_context_idempotent:
  assumes "handler cfg l1 st1 c path rest = (Rendered h1 p1 sc1, st1')"
    and "handler cfg l2 st2 c path rest = (Rendered h2 p2 sc2, st2')"
  shows "h1 = h2 \<and> p1 = p2 \<and> sc1\<lparr>styles := None\<rparr> = sc2\<lparr>styles := None\<rparr>
         \<and> (st2 = st1' \<and> (isProd cfg \<or> l1 = l2) \<longrightarrow> sc1 = sc2)"
  using assms(1)
proof (cases rule: rendered_cases)
  case plain
  then show ?thesis using assms by (simp add: handler_plain)
next
  case (amp r)
  obtain css1 where a1: "amp_css cfg l1 st1 = (Inr css1, st1')"
    and r1: "h1 = [(''Feature-Policy'', policyHeader cfg)]" "p1 = ''_amp-session''"
    and s1: "sc1 = \<lparr>year = 2018, prod_flag = isProd cfg, base = mountUrl c, layout = ''amp'',
                  ua = ''UA-41980257-1'', conversion = 935743779,
                  sourcePrefix = sourcePrefix_const cfg, days = days_const cfg,
                  sitePrefix = Some ((if isProd cfg then ''https://'' else ''http://'')
                                      @ js_string (host c) @ mountUrl c),
                  title = Some (js_or (record_field (obj_get (schedule_sessions cfg) r) ''name'') (JStr '''')),
                  time_label = Some (js_or (record_field (obj_get (schedule_sessions cfg) r) ''time_label'') (JStr '''')),
                  description = Some (js_or (record_field (obj_get (schedule_sessions cfg) r) ''description'') (JStr '''')),
                  payload = Some (obj_get (schedule_sessions cfg) r),
                  styles = Some css1\<rparr>"
    using handler_amp_rendered [OF amp(4) amp(2) amp(5) amp(6) assms(1) [unfolded amp(1) amp(3)]]
    by blast
  obtain css2 where a2: "amp_css cfg l2 st2 = (Inr css2, st2')"
    and r2: "h2 = [(''Feature-Policy'', policyHeader cfg)]" "p2 = ''_amp-session''"
    and s2: "sc2 = \<lparr>year = 2018, prod_flag = isProd cfg, base = mountUrl c, layout = ''amp'',
                  ua = ''UA-41980257-1'', conversion = 935743779,
                  sourcePrefix = sourcePrefix_const cfg, days = days_const cfg,
                  sitePrefix = Some ((if isProd cfg then ''https://'' else ''http://'')
                                      @ js_string (host c) @ mountUrl c),
                  title = Some (js_or (record_field (obj_get (schedule_sessions cfg) r) ''name'') (JStr '''')),
                  time_label = Some (js_or (record_field (obj_get (schedule_sessions cfg) r) ''time_label'') (JStr '''')),
                  description = Some (js_or (record_field (obj_get (schedule_sessions cfg) r) ''description'') (JStr '''')),
                  payload = Some (obj_get (schedule_sessions cfg) r),
                  styles = Some css2\<rparr>"
    using handler_amp_rendered [OF amp(4) amp(2) amp(5) amp(6) assms(2) [unfolded amp(1) amp(3)]]
    by blast
  have same: "st2 = st1' \<and> (isProd cfg \<or> l1 = l2) \<longrightarrow> css1 = css2"
    using amp_css_text [OF a1] a2 by blast
  have "sc1\<lparr>styles := None\<rparr> = sc2\<lparr>styles := None\<rparr>" by (simp add: s1 s2)
  moreover have "st2 = st1' \<and> (isProd cfg \<or> l1 = l2) \<longrightarrow> sc1 = sc2"
    using same by (simp add: s1 s2)
  ultimately show ?thesis by (simp add: r1 r2)
qed

theorem render_context_idempotent_witness:
  "fst (handler
      \<lparr>isProd = True, schedule_sessions = [(''abc'', JObj [(''name'', JStr ''Keynote'')])],
       days_const = JNull, policyHeader = ''p'', prodAmpCss = None, sections = [''schedule'']\<rparr>
      (Inr ''css'') \<lparr>fallbackProdAmpCss = None, less_calls = 0\<rparr>
      \<lparr>url = ''/schedule/abc'', originalUrl = None, host = Some ''h''\<rparr> ''schedule'' (Some ''abc''))
   = fst (handler
      \<lparr>isProd = True, schedule_sessions = [(''abc'', JObj [(''name'', JStr ''Keynote'')])],
       days_const = JNull, policyHeader = ''p'', prodAmpCss = None, sections = [''schedule'']\<rparr>
      (Inr ''other'') \<lparr>fallbackProdAmpCss = Some ''css'', less_calls = 1\<rparr>
      \<lparr>url = ''/schedule/abc'', originalUrl = None, host = Some ''h''\<rparr> ''schedule'' (Some ''abc''))
   \<and> snd (handler
      \<lparr>isProd = True, schedule_sessions = [(''abc'', JObj [(''name'', JStr ''Keynote'')])],
       days_const = JNull, policyHeader = ''p'', prodAmpCss = None, sections = [''schedule'']\<rparr>
      (Inr ''css'') \<lparr>fallbackProdAmpCss = None, less_calls = 0\<rparr>
      \<lparr>url = ''/schedule/abc'', originalUrl = None, host = Some ''h''\<rparr> ''schedule'' (Some ''abc''))
   = \<lparr>fallbackProdAmpCss = Some ''css'', less_calls = 1\<rparr>"
proof -
  let ?cfg = "\<lparr>isProd = True, schedule_sessions = [(''abc'', JObj [(''name'', JStr ''Keynote'')])],
       days_const = JNull, policyHeader = ''p'', prodAmpCss = None, sections = [''schedule'']\<rparr>"
  let ?c = "\<lparr>url = ''/schedule/abc'', originalUrl = None, host = Some ''h''\<rparr>"
  let ?st0 = "\<lparr>fallbackProdAmpCss = None, less_calls = 0\<rparr>"
  let ?st1 = "\<lparr>fallbackProdAmpCss = Some ''css'', less_calls = 1\<rparr>"
  let ?sc = "\<lparr>year = 2018, prod_flag = True, base = [], layout = ''amp'',
            ua = ''UA-41980257-1'', conversion = 935743779,
            sourcePrefix = ''res'', days = JNull,
            sitePrefix = Some ''https://h'',
            title = Some (JStr ''Keynote''), time_label = Some (JStr []),
            description = Some (JStr []), payload = Some (JObj [(''name'', JStr ''Keynote'')]),
            styles = Some (JStr ''css'')\<rparr>"
  have e1: "handler ?cfg (Inr ''css'') ?st0 ?c ''schedule'' (Some ''abc'')
            = (Rendered [(''Feature-Policy'', ''p'')] ''_amp-session'' ?sc, ?st1)"
    by (simp add: handler_def Let_def startsWith_def obj_get_def object_prototype_def amp_css_def
        js_or_def mountUrl_def sourcePrefix_const_def)
  have e2: "handler ?cfg (Inr ''other'') ?st1 ?c ''schedule'' (Some ''abc'')
            = (Rendered [(''Feature-Policy'', ''p'')] ''_amp-session'' ?sc, ?st1)"
    by (simp add: handler_def Let_def startsWith_def obj_get_def object_prototype_def amp_css_def
        js_or_def mountUrl_def sourcePrefix_const_def)
  from render_context_idempotent [OF e1 e2] e1 e2 show ?thesis by simp
qed

section \<open>Startup without the precompiled stylesheet\<close>

text \<open>
  Claim C8. When reading \<^verbatim>\<open>res/amp.css\<close> fails at startup in production, the failure is
  swallowed: \<^verbatim>\<open>readProdAmpCss\<close> returns \<^verbatim>\<open>undefined\<close>, the load goes on exactly as far
  as the listing of the sections directory allows, with the eager value absent and the
  fallback cell empty, and an AMP request served from that state calls \<^verbatim>\<open>less.render\<close>
  and is rendered with the text it returns.
\<close>

theorem artifact_read_failure_swallowed:
  assumes "readFileSync fs (dirname @ ''/res/amp.css'') = Inl err"
  shows "readProdAmpCss fs dirname = None
    \<and> startup True fs dirname sessions ds pol =
        (case readdirSync fs (dirname @ ''/sections'') of
           Inl e \<Rightarrow> Inl e
         | Inr entries \<Rightarrow>
             Inr (\<lparr>isProd = True, schedule_sessions = sessions, days_const = ds,
                   policyHeader = pol, prodAmpCss = None, sections = sections_of entries\<rparr>,
                  \<lparr>fallbackProdAmpCss = None, less_calls = 0\<rparr>))
    \<and> (\<forall>cfg st rq. startup True fs dirname sessions ds pol = Inr (cfg, st) \<and> amp_request cfg rq
          \<longrightarrow> less_calls (snd (serve cfg st rq)) = 1
            \<and> (\<forall>t. req_less rq = Inr t \<longrightarrow>
                  outcome_styles (fst (serve cfg st rq)) = Some (JStr t)))"
proof (intro conjI allI impI)
  show r: "readProdAmpCss fs dirname = None"
    using assms by (simp add: readProdAmpCss_def)
  show s: "startup True fs dirname sessions ds pol =
        (case readdirSync fs (dirname @ ''/sections'') of
           Inl e \<Rightarrow> Inl e
         | Inr entries \<Rightarrow>
             Inr (\<lparr>isProd = True, schedule_sessions = sessions, days_const = ds,
                   policyHeader = pol, prodAmpCss = None, sections = sections_of entries\<rparr>,
                  \<lparr>fallbackProdAmpCss = None, less_calls = 0\<rparr>))"
    by (simp add: startup_def r)
  fix cfg st rq
  assume h: "startup True fs dirname sessions ds pol = Inr (cfg, st) \<and> amp_request cfg rq"
  then have c: "prodAmpCss cfg = None" "fallbackProdAmpCss st = None" "less_calls st = 0"
    unfolding s by (auto split: sum.splits)
  show "less_calls (snd (serve cfg st rq)) = 1"
    using h c by (simp add: serve_amp(1) amp_css_render split: sum.splits)
  fix t assume "req_less rq = Inr t"
  then show "outcome_styles (fst (serve cfg st rq)) = Some (JStr t)"
    using h c by (simp add: serve_amp(2) amp_css_render)
qed

theorem artifact_read_failure_swallowed_witness:
  "startup True
     \<lparr>readFileSync = (\<lambda>p. Inl ''ENOENT''), readdirSync = (\<lambda>p. Inr [''index.html'', ''schedule.html''])\<rparr>
     ''/srv'' [(''abc'', JObj [])] JNull ''p''
   = Inr (\<lparr>isProd = True, schedule_sessions = [(''abc'', JObj [])], days_const = JNull,
           policyHeader = ''p'', prodAmpCss = None, sections = [''index'', ''schedule'']\<rparr>,
          \<lparr>fallbackProdAmpCss = None, less_calls = 0\<rparr>)
   \<and> less_calls (snd (serve
        \<lparr>isProd = True, schedule_sessions = [(''abc'', JObj [])], days_const = JNull,
           policyHeader = ''p'', prodAmpCss = None, sections = [''index'', ''schedule'']\<rparr>
        \<lparr>fallbackProdAmpCss = None, less_calls = 0\<rparr>
        \<lparr>req_ctx = \<lparr>url = ''/schedule/abc'', originalUrl = None, host = None\<rparr>,
         req_path = ''schedule'', req_rest = Some ''abc'', req_less = Inr ''css''\<rparr>)) = 1
   \<and> outcome_styles (fst (serve
        \<lparr>isProd = True, schedule_sessions = [(''abc'', JObj [])], days_const = JNull,
           policyHeader = ''p'', prodAmpCss = None, sections = [''index'', ''schedule'']\<rparr>
        \<lparr>fallbackProdAmpCss = None, less_calls = 0\<rparr>
        \<lparr>req_ctx = \<lparr>url = ''/schedule/abc'', originalUrl = None, host = None\<rparr>,
         req_path = ''schedule'', req_rest = Some ''abc'', req_less = Inr ''css''\<rparr>))
      = Some (JStr ''css'')"
proof -
  let ?fs = "\<lparr>readFileSync = (\<lambda>p. Inl ''ENOENT''),
             readdirSync = (\<lambda>p. Inr [''index.html'', ''schedule.html''])\<rparr>"
  let ?cfg = "\<lparr>isProd = True, schedule_sessions = [(''abc'', JObj [])], days_const = JNull,
           policyHeader = ''p'', prodAmpCss = None, sections = [''index'', ''schedule'']\<rparr>"
  let ?rq = "\<lparr>req_ctx = \<lparr>url = ''/schedule/abc'', originalUrl = None, host = None\<rparr>,
         req_path = ''schedule'', req_rest = Some ''abc'', req_less = Inr ''css''\<rparr>"
  have f: "readFileSync ?fs (''/srv'' @ ''/res/amp.css'') = Inl ''ENOENT''" by simp
  have secs: "sections_of [''index.html'', ''schedule.html''] = [''index'', ''schedule'']"
    by (simp add: sections_of_Cons sections_of_Nil section_name_def endsWith_def substr_def)
  have a: "amp_request ?cfg ?rq"
    by (simp add: amp_request_def obj_get_def startsWith_def)
  note w = artifact_read_failure_swallowed [OF f, of "[(''abc'', JObj [])]" JNull "''p''"]
  have s: "startup True ?fs ''/srv'' [(''abc'', JObj [])] JNull ''p''
        = Inr (?cfg, \<lparr>fallbackProdAmpCss = None, less_calls = 0\<rparr>)"
    using w by (simp add: secs)
  from w s a have "less_calls (snd (serve ?cfg \<lparr>fallbackProdAmpCss = None, less_calls = 0\<rparr> ?rq)) = 1
      \<and> (\<forall>t. req_less ?rq = Inr t \<longrightarrow>
            outcome_styles (fst (serve ?cfg \<lparr>fallbackProdAmpCss = None, less_calls = 0\<rparr> ?rq))
              = Some (JStr t))"
    by blast
  with s show ?thesis by simp
qed

end
